theory Spec2Isabelle
  imports
    Main
    "HOL-Library.Sublist"
    "HOL-Library.AList"
    "HOL-Library.Char_ord"
    "HOL-Library.List_Lexorder"
    "HOL-Library.Product_Lexorder"
    "HOL-Library.Multiset"
begin

section \<open>Python string primitives used by the orchestrator\<close>

text \<open>
  Python \<open>str\<close> values are modelled as \<open>string\<close> (lists of characters, one \<open>char\<close> per
  code point; the model covers code points below 256).  The functions below follow the
  CPython behaviour of the methods that \<open>docker_orchestrator.py\<close> calls.
\<close>

definition LF :: char where
  "LF = CHR 0x0A"

definition CR :: char where
  "CR = CHR 0x0D"

text \<open>\<open>s.split(sep)\<close> for a one-character separator: empty fields are kept.\<close>

fun split_on :: "char \<Rightarrow> string \<Rightarrow> string list" where
  "split_on sep [] = [[]]"
| "split_on sep (c # cs) =
     (if c = sep then [] # split_on sep cs
      else (case split_on sep cs of [] \<Rightarrow> [[c]] | w # ws \<Rightarrow> (c # w) # ws))"

text \<open>
  \<open>content.count(sub)\<close>: CPython scans from the left and, after a match, continues
  behind it, so the matches it counts never overlap; an empty \<open>sub\<close> is counted once
  per gap, that is \<open>len(content) + 1\<close> times.
\<close>

function py_count :: "string \<Rightarrow> string \<Rightarrow> nat" where
  "py_count sub xs =
     (if sub = [] then Suc (length xs)
      else if xs = [] then 0
      else if prefix sub xs then Suc (py_count sub (drop (length sub) xs))
      else py_count sub (tl xs))"
  by pat_completeness auto
termination
  by (relation "measure (\<lambda>(sub, xs). length xs)") auto

declare py_count.simps [simp del]

text \<open>
  \<open>content.replace(old, new, 1)\<close>: only the leftmost match is replaced; an empty
  \<open>old\<close> matches at position 0.
\<close>

fun replace_first :: "string \<Rightarrow> string \<Rightarrow> string \<Rightarrow> string" where
  "replace_first old new [] = (if old = [] then new else [])"
| "replace_first old new (x # xs) =
     (if prefix old (x # xs) then new @ drop (length old) (x # xs)
      else x # replace_first old new xs)"

text \<open>\<open>s.replace(old, new)\<close> without a count: every match of the left-to-right scan.\<close>

function replace_all :: "string \<Rightarrow> string \<Rightarrow> string \<Rightarrow> string" where
  "replace_all old new xs =
     (if old = [] then new @ concat (map (\<lambda>c. c # new) xs)
      else if xs = [] then []
      else if prefix old xs then new @ replace_all old new (drop (length old) xs)
      else hd xs # replace_all old new (tl xs))"
  by pat_completeness auto
termination
  by (relation "measure (\<lambda>(old, new, xs). length xs)") auto

declare replace_all.simps [simp del]

text \<open>
  The occurrences of a block in a text, as the specification speaks of them: the
  positions of the text at which the block starts, whether or not two of them overlap.
\<close>

fun occurrences :: "string \<Rightarrow> string \<Rightarrow> nat" where
  "occurrences sub [] = (if sub = [] then 1 else 0)"
| "occurrences sub (x # xs) = (if prefix sub (x # xs) then 1 else 0) + occurrences sub xs"

text \<open>
  \<open>str.isspace\<close> on one character, for the code points below 256: TAB, LF, VT, FF, CR,
  the separators 0x1C to 0x1F, space, NEL (0x85) and the no-break space (0xA0).
\<close>

definition is_space :: "char \<Rightarrow> bool" where
  "is_space c \<longleftrightarrow>
     c \<in> set [CHR 0x09, CHR 0x0A, CHR 0x0B, CHR 0x0C, CHR 0x0D, CHR 0x1C, CHR 0x1D,
               CHR 0x1E, CHR 0x1F, CHR 0x20, CHR 0x85, CHR 0xA0]"

definition rstrip :: "string \<Rightarrow> string" where
  "rstrip s = rev (dropWhile is_space (rev s))"

definition lstrip :: "string \<Rightarrow> string" where
  "lstrip s = dropWhile is_space s"

definition strip :: "string \<Rightarrow> string" where
  "strip s = lstrip (rstrip s)"

text \<open>
  Text-mode reading (\<open>open(p, "r")\<close>, \<open>newline=None\<close>): universal newlines turn
  \<open>CR LF\<close> and a lone \<open>CR\<close> into \<open>LF\<close>.  Text-mode writing on a POSIX host
  stores the characters unchanged.
\<close>

fun translate_newlines :: "string \<Rightarrow> string" where
  "translate_newlines [] = []"
| "translate_newlines [c] = [if c = CR then LF else c]"
| "translate_newlines (c # d # ds) =
     (if c = CR \<and> d = LF then LF # translate_newlines ds
      else if c = CR then LF # translate_newlines (d # ds)
      else c # translate_newlines (d # ds))"

text \<open>\<open>f.readlines()\<close> on translated text: lines end behind each \<open>LF\<close>, which is kept.\<close>

fun readlines :: "string \<Rightarrow> string list" where
  "readlines [] = []"
| "readlines (c # cs) =
     (if c = LF then [c] # readlines cs
      else (case readlines cs of [] \<Rightarrow> [[c]] | l # ls \<Rightarrow> (c # l) # ls))"

text \<open>Decimal rendering of a line number, as the f-string \<open>{idx}\<close> does.\<close>

definition digit_char :: "nat \<Rightarrow> char" where
  "digit_char d = ''0123456789'' ! (d mod 10)"

function str_of_nat :: "nat \<Rightarrow> string" where
  "str_of_nat n = (if n < 10 then [digit_char n] else str_of_nat (n div 10) @ [digit_char n])"
  by pat_completeness auto
termination
  by (relation "measure id") auto

declare str_of_nat.simps [simp del]


section \<open>Paths\<close>

text \<open>
  A \<open>pathlib.Path\<close> on a POSIX host is modelled by the list of its segments below the
  root; every path of the model is absolute (the entry point builds \<open>workspace_root\<close>
  with \<open>resolve()\<close>).  Parsing a string drops empty segments and \<open>.\<close> segments and
  keeps \<open>..\<close>; \<open>/\<close> is the only separator; a string that starts with \<open>/\<close> is
  absolute and replaces the base it is joined to.  \<open>resolve()\<close> is modelled for a file
  system without symbolic links, where it removes \<open>..\<close> lexically and stays at the
  root when there is nothing left to remove.
\<close>

type_synonym path = "string list"

definition parts :: "string \<Rightarrow> path" where
  "parts s = filter (\<lambda>seg. seg \<noteq> [] \<and> seg \<noteq> ''.'') (split_on CHR ''/'' s)"

definition is_absolute :: "string \<Rightarrow> bool" where
  "is_absolute s = (case s of [] \<Rightarrow> False | c # _ \<Rightarrow> c = CHR ''/'')"

definition joinpath :: "path \<Rightarrow> string \<Rightarrow> path" where
  "joinpath base s = (if is_absolute s then parts s else base @ parts s)"

fun resolve_acc :: "path \<Rightarrow> path \<Rightarrow> path" where
  "resolve_acc acc [] = acc"
| "resolve_acc acc (seg # segs) =
     (if seg = ''..'' then resolve_acc (butlast acc) segs
      else resolve_acc (acc @ [seg]) segs)"

definition resolve :: "path \<Rightarrow> path" where
  "resolve p = resolve_acc [] p"

definition str_path :: "path \<Rightarrow> string" where
  "str_path p = (if p = [] then ''/'' else concat (map (\<lambda>seg. CHR ''/'' # seg) p))"

definition parent :: "path \<Rightarrow> path" where
  "parent p = butlast p"

text \<open>\<open>item.relative_to(base)\<close>: the segments behind \<open>base\<close>, or \<open>ValueError\<close>.\<close>

definition relative_to :: "path \<Rightarrow> path \<Rightarrow> path option" where
  "relative_to p base = (if prefix base p then Some (drop (length base) p) else None)"

definition str_rel :: "path \<Rightarrow> string" where
  "str_rel p = (case p of [] \<Rightarrow> ''.'' | seg # segs \<Rightarrow> seg @ concat (map (\<lambda>t. CHR ''/'' # t) segs))"


section \<open>Exceptions and payloads\<close>

text \<open>
  A raised exception is a value: its class and the text \<open>str(e)\<close> that the error
  boundary puts into the payload.  Every public operation returns a payload (a Python
  dict or list) or lets an exception escape, together with the state it leaves behind.
\<close>

datatype exn_class =
    PermissionError | FileExistsError | FileNotFoundError | NotADirectoryError
  | IsADirectoryError | OSError | ValueError | ShutilError | AttributeError
  | KeyError | TypeError | IndexError | NullResource | DockerNotFound | DockerAPIError
  | PlainException

type_synonym exn = "exn_class \<times> string"

definition errno_text :: "exn_class \<Rightarrow> string" where
  "errno_text c =
     (if c = FileExistsError then ''[Errno 17] File exists''
      else if c = FileNotFoundError then ''[Errno 2] No such file or directory''
      else if c = NotADirectoryError then ''[Errno 20] Not a directory''
      else if c = IsADirectoryError then ''[Errno 21] Is a directory''
      else ''[Errno 22] Invalid argument'')"

definition os_error :: "exn_class \<Rightarrow> path \<Rightarrow> exn" where
  "os_error c p = (c, errno_text c @ '': '' @ [CHR 0x27] @ str_path p @ [CHR 0x27])"

datatype entry = Entry (entry_name: string) (entry_type: string) (entry_path: string)

datatype search_match = Match string string string

datatype payload =
    ErrorP string
  | InfoP (info_name: string) (info_url: string)
  | StatusP string string
  | ContentP string
  | EntriesP "entry list"
  | MatchesP "search_match list"
  | ResultP int string
  | LogsP string


section \<open>The host file system\<close>

text \<open>
  The file system is a tree: a regular file with its text, or a directory with its
  named children in the order the operating system enumerates them.  Paths are walked
  from the root, so a path below a regular file or below a missing directory does not
  exist.
\<close>

datatype node = File string | Dir "(string \<times> node) list"

fun lookup :: "path \<Rightarrow> node \<Rightarrow> node option" where
  "lookup [] n = Some n"
| "lookup (seg # p) (File c) = None"
| "lookup (seg # p) (Dir cs) =
     (case map_of cs seg of None \<Rightarrow> None | Some n \<Rightarrow> lookup p n)"

definition exists_path :: "path \<Rightarrow> node \<Rightarrow> bool" where
  "exists_path p root = (lookup p root \<noteq> None)"

definition is_file :: "path \<Rightarrow> node \<Rightarrow> bool" where
  "is_file p root = (case lookup p root of Some (File c) \<Rightarrow> True | _ \<Rightarrow> False)"

definition is_dir :: "path \<Rightarrow> node \<Rightarrow> bool" where
  "is_dir p root = (case lookup p root of Some (Dir cs) \<Rightarrow> True | _ \<Rightarrow> False)"

text \<open>
  \<open>Path.mkdir(parents=True, exist_ok=True)\<close>: missing directories are created along
  the path; an existing directory is accepted; a regular file at the path raises
  \<open>FileExistsError\<close> and a regular file above it raises \<open>NotADirectoryError\<close>.
\<close>

fun mkdir_p :: "path \<Rightarrow> node \<Rightarrow> exn_class + node" where
  "mkdir_p [] (Dir cs) = Inr (Dir cs)"
| "mkdir_p [] (File c) = Inl FileExistsError"
| "mkdir_p (seg # p) (File c) = Inl NotADirectoryError"
| "mkdir_p (seg # p) (Dir cs) =
     (case mkdir_p p (case map_of cs seg of None \<Rightarrow> Dir [] | Some n \<Rightarrow> n) of
        Inl e \<Rightarrow> Inl e
      | Inr n' \<Rightarrow> Inr (Dir (AList.update seg n' cs)))"

definition mkdir_parents :: "path \<Rightarrow> node \<Rightarrow> exn + node" where
  "mkdir_parents p root =
     (case mkdir_p p root of Inl c \<Rightarrow> Inl (os_error c p) | Inr root' \<Rightarrow> Inr root')"

text \<open>
  Putting a node at a path whose parent is an existing directory (the effect of creating
  a file there, or of the destination side of a rename).
\<close>

fun attach_at :: "path \<Rightarrow> node \<Rightarrow> node \<Rightarrow> exn_class + node" where
  "attach_at [] n root = Inr n"
| "attach_at (seg # p) n (File c) = Inl NotADirectoryError"
| "attach_at (seg # p) n (Dir cs) =
     (if p = [] then Inr (Dir (AList.update seg n cs))
      else (case map_of cs seg of
              None \<Rightarrow> Inl FileNotFoundError
            | Some c \<Rightarrow>
                (case attach_at p n c of
                   Inl e \<Rightarrow> Inl e
                 | Inr c' \<Rightarrow> Inr (Dir (AList.update seg c' cs)))))"

text \<open>Taking the node at a path out of its directory (the source side of a rename).\<close>

fun remove_at :: "path \<Rightarrow> node \<Rightarrow> node" where
  "remove_at [] n = n"
| "remove_at (seg # p) (File c) = File c"
| "remove_at (seg # p) (Dir cs) =
     (if p = [] then Dir (AList.delete seg cs)
      else (case map_of cs seg of
              None \<Rightarrow> Dir cs
            | Some c \<Rightarrow> Dir (AList.update seg (remove_at p c) cs)))"

text \<open>
  \<open>open(p, "w").write(content)\<close>: a directory at \<open>p\<close> raises
  \<open>IsADirectoryError\<close>; otherwise the file is created or overwritten.
\<close>

definition open_write :: "path \<Rightarrow> string \<Rightarrow> node \<Rightarrow> exn + node" where
  "open_write p content root =
     (if is_dir p root then Inl (os_error IsADirectoryError p)
      else (case attach_at p (File content) root of
              Inl c \<Rightarrow> Inl (os_error c p)
            | Inr root' \<Rightarrow> Inr root'))"

text \<open>\<open>open(p, "r").read()\<close>: the stored text with universal newlines applied.\<close>

definition open_read :: "path \<Rightarrow> node \<Rightarrow> exn + string" where
  "open_read p root =
     (case lookup p root of
        Some (File c) \<Rightarrow> Inr (translate_newlines c)
      | Some (Dir cs) \<Rightarrow> Inl (os_error IsADirectoryError p)
      | None \<Rightarrow> Inl (os_error FileNotFoundError p))"

text \<open>
  \<open>shutil.move(src, dst)\<close> on one device, as \<open>move_item\<close> calls it: at the call
  \<open>dst\<close> is absent and its parent is a directory, so the move is a rename.  A
  destination inside the source makes the rename fail and \<open>shutil\<close> raise its
  \<open>Error\<close> (for a directory) or the copy fail (for a file).  Renaming onto an existing
  destination is outside this model (reported as \<open>OSError\<close>); \<open>move_item\<close> returns
  before it could happen.
\<close>

definition shutil_move :: "path \<Rightarrow> path \<Rightarrow> node \<Rightarrow> exn + node" where
  "shutil_move src dst root =
     (case lookup src root of
        None \<Rightarrow> Inl (os_error FileNotFoundError src)
      | Some n \<Rightarrow>
          if prefix src dst then
            (case n of
               Dir cs \<Rightarrow>
                 Inl (ShutilError, ''Cannot move a directory '' @ [CHR 0x27] @ str_path src
                        @ [CHR 0x27] @ '' into itself '' @ [CHR 0x27] @ str_path dst @ [CHR 0x27] @ ''.'')
             | File c \<Rightarrow> Inl (os_error NotADirectoryError dst))
          else if exists_path dst root then Inl (os_error OSError dst)
          else (case attach_at dst n (remove_at src root) of
                  Inl c \<Rightarrow> Inl (os_error c dst)
                | Inr root' \<Rightarrow> Inr root'))"


section \<open>The orchestrator's state and the container runtime\<close>

text \<open>
  The state holds the fields of a \<open>DockerOrchestrator\<close> object together with the world
  it acts on: the host file system and the container runtime behind the Docker client.
  The runtime is an external collaborator.  Its model keeps the containers, found by
  their name (lookup by container id is not modelled),
  records every command given to \<open>exec_run\<close>, and takes from oracle fields what only
  the runtime decides: the outcome of a command (exit code, output, and its effect on
  the bind-mounted host files), the published host port, the log text, and the outcome
  of the image set-up.  A container handle is the snapshot of the attributes that the
  client fetched last.
\<close>

record container =
  cname :: string
  cstatus :: string
  cports :: "(string \<times> string list option) list"

record state =
  run_id :: string
  workspace_root :: path
  project_dir :: path
  container :: "container option"
  fs :: node
  containers :: "container list"
  exec_log :: "(string \<times> string) list"
  exec_oracle :: "nat \<Rightarrow> string \<Rightarrow> node \<Rightarrow> int \<times> string \<times> node"
  port_oracle :: string
  logs_oracle :: "int \<Rightarrow> string"
  image_oracle :: "exn option"

definition find_container :: "string \<Rightarrow> container list \<Rightarrow> container option" where
  "find_container ident cs = find (\<lambda>c. cname c = ident) cs"

definition put_container :: "container \<Rightarrow> container list \<Rightarrow> container list" where
  "put_container c cs =
     (if find_container (cname c) cs = None then cs @ [c]
      else map (\<lambda>d. if cname d = cname c then c else d) cs)"

type_synonym 'a action = "state \<Rightarrow> (exn + 'a) \<times> state"

definition bindE :: "'a action \<Rightarrow> ('a \<Rightarrow> 'b action) \<Rightarrow> 'b action" where
  "bindE m f s = (case m s of (Inl e, s') \<Rightarrow> (Inl e, s') | (Inr x, s') \<Rightarrow> f x s')"

definition returnE :: "'a \<Rightarrow> 'a action" where
  "returnE x s = (Inr x, s)"

definition raiseE :: "exn \<Rightarrow> 'a action" where
  "raiseE e s = (Inl e, s)"

definition liftE :: "exn + 'a \<Rightarrow> 'a action" where
  "liftE r s = (r, s)"

text \<open>\<open>try: ... except Exception as e: return {"error": str(e)}\<close>\<close>

definition catch_all :: "payload action \<Rightarrow> payload action" where
  "catch_all m s =
     (case m s of (Inl e, s') \<Rightarrow> (Inr (ErrorP (snd e)), s') | (Inr r, s') \<Rightarrow> (Inr r, s'))"

text \<open>The decorator: no container, no call; any exception of the call becomes a payload.\<close>

definition require_container :: "payload action \<Rightarrow> payload action" where
  "require_container func s =
     (if container s = None
      then (Inr (ErrorP ''No container running. Start the container first''), s)
      else catch_all func s)"

text \<open>An attribute access on \<open>self.container\<close>, which raises when the field is \<open>None\<close>.\<close>

definition with_container :: "string \<Rightarrow> (container \<Rightarrow> 'a action) \<Rightarrow> 'a action" where
  "with_container attr f s =
     (case container s of
        None \<Rightarrow>
          (Inl (AttributeError,
                [CHR 0x27] @ ''NoneType'' @ [CHR 0x27] @ '' object has no attribute ''
                  @ [CHR 0x27] @ attr @ [CHR 0x27]), s)
      | Some c \<Rightarrow> f c s)"

subsection \<open>Runtime calls\<close>

definition valid_name_char :: "char \<Rightarrow> bool" where
  "valid_name_char c \<longleftrightarrow>
     c \<in> set ''abcdefghijklmnopqrstuvwxyzABCDEFGHIJKLMNOPQRSTUVWXYZ0123456789_.-''"

definition valid_name :: "string \<Rightarrow> bool" where
  "valid_name n =
     (case n of
        [] \<Rightarrow> False
      | c # cs \<Rightarrow> valid_name_char c \<and> c \<notin> set ''_.-'' \<and> cs \<noteq> [] \<and> list_all valid_name_char cs)"

definition containers_get :: "string \<Rightarrow> container action" where
  "containers_get ident s =
     (if ident = [] then (Inl (NullResource, ''Resource ID was not provided''), s)
      else (case find_container ident (containers s) of
              None \<Rightarrow> (Inl (DockerNotFound, ''No such container: '' @ ident), s)
            | Some c \<Rightarrow> (Inr c, s)))"

definition containers_run :: "string \<Rightarrow> container action" where
  "containers_run name s =
     (if \<not> valid_name name then (Inl (DockerAPIError, ''Invalid container name''), s)
      else if find_container name (containers s) \<noteq> None
      then (Inl (DockerAPIError, ''Conflict. The container name is already in use''), s)
      else
        (let c = \<lparr>cname = name, cstatus = ''running'',
                  cports = [(''5173/tcp'', Some [port_oracle s])]\<rparr>
         in (Inr c, s\<lparr>containers := put_container c (containers s)\<rparr>)))"

definition container_start :: "container \<Rightarrow> unit action" where
  "container_start c s =
     (case find_container (cname c) (containers s) of
        None \<Rightarrow> (Inl (DockerNotFound, ''No such container: '' @ cname c), s)
      | Some live \<Rightarrow>
          (Inr (),
           s\<lparr>containers :=
               put_container
                 (live\<lparr>cstatus := ''running'',
                        cports := [(''5173/tcp'', Some [port_oracle s])]\<rparr>)
                 (containers s)\<rparr>))"

definition exec_run :: "container \<Rightarrow> string \<Rightarrow> (int \<times> string) action" where
  "exec_run c cmd s =
     (case find_container (cname c) (containers s) of
        None \<Rightarrow> (Inl (DockerNotFound, ''No such container: '' @ cname c), s)
      | Some live \<Rightarrow>
          if cstatus live \<noteq> ''running''
          then (Inl (DockerAPIError, ''Container '' @ cname c @ '' is not running''), s)
          else
            (case exec_oracle s (length (exec_log s)) cmd (fs s) of
               (code, out, fs') \<Rightarrow>
                 (Inr (code, out),
                  s\<lparr>fs := fs', exec_log := exec_log s @ [(cname c, cmd)]\<rparr>)))"

text \<open>A detached \<open>exec_run\<close> returns at once; the command is recorded.\<close>

definition exec_run_detached :: "container \<Rightarrow> string \<Rightarrow> unit action" where
  "exec_run_detached c cmd s =
     (case find_container (cname c) (containers s) of
        None \<Rightarrow> (Inl (DockerNotFound, ''No such container: '' @ cname c), s)
      | Some live \<Rightarrow>
          if cstatus live \<noteq> ''running''
          then (Inl (DockerAPIError, ''Container '' @ cname c @ '' is not running''), s)
          else (Inr (), s\<lparr>exec_log := exec_log s @ [(cname c, cmd)]\<rparr>))"

definition container_reload :: "unit action" where
  "container_reload =
     with_container ''reload'' (\<lambda>c s.
       case find_container (cname c) (containers s) of
         None \<Rightarrow> (Inl (DockerNotFound, ''No such container: '' @ cname c), s)
       | Some live \<Rightarrow> (Inr (), s\<lparr>container := Some live\<rparr>))"

definition container_logs :: "container \<Rightarrow> int \<Rightarrow> string action" where
  "container_logs c n s =
     (case find_container (cname c) (containers s) of
        None \<Rightarrow> (Inl (DockerNotFound, ''No such container: '' @ cname c), s)
      | Some live \<Rightarrow> (Inr (logs_oracle s n), s))"

text \<open>\<open>ports["5173/tcp"][0]["HostPort"]\<close> on the handle's cached attributes.\<close>

definition host_port :: "container \<Rightarrow> exn + string" where
  "host_port c =
     (case map_of (cports c) ''5173/tcp'' of
        None \<Rightarrow> Inl (KeyError, [CHR 0x27] @ ''5173/tcp'' @ [CHR 0x27])
      | Some None \<Rightarrow> Inl (TypeError, ''NoneType object is not subscriptable'')
      | Some (Some []) \<Rightarrow> Inl (IndexError, ''list index out of range'')
      | Some (Some (p # ps)) \<Rightarrow> Inr p)"

definition info_of :: "container \<Rightarrow> exn + payload" where
  "info_of c =
     (case host_port c of
        Inl e \<Rightarrow> Inl e
      | Inr p \<Rightarrow> Inr (InfoP (cname c) (''http://localhost:'' @ p)))"


section \<open>Construction and the lifecycle\<close>

text \<open>
  \<open>__init__\<close> receives the object to initialise (here: the state that carries the world)
  and may raise.  The directory is created at the canonical location of
  \<open>workspace_root / run_id\<close>.
\<close>

definition initial_setup :: "unit action" where
  "initial_setup s = (case image_oracle s of None \<Rightarrow> (Inr (), s) | Some e \<Rightarrow> (Inl e, s))"

definition init :: "string \<Rightarrow> path \<Rightarrow> unit action" where
  "init rid root s =
     (let s1 = s\<lparr>run_id := rid, workspace_root := root, project_dir := joinpath root rid\<rparr>
      in case mkdir_parents (resolve (project_dir s1)) (fs s1) of
           Inl e \<Rightarrow> (Inl e, s1)
         | Inr fs' \<Rightarrow> initial_setup (s1\<lparr>fs := fs', container := None\<rparr>))"

definition bootstrap_commands :: "string list" where
  "bootstrap_commands =
     [''apk add --no-cache git'',
      ''npx -y degit  OMGATE23/vite-react-ts-tailwind-router-template . --force'',
      ''npm install'']"

definition pgrep_vite :: string where
  "pgrep_vite = ''pgrep -f '' @ [CHR 0x27] @ ''vite'' @ [CHR 0x27]"

definition run_command_strict :: "string \<Rightarrow> unit action" where
  "run_command_strict command =
     with_container ''exec_run'' (\<lambda>c.
       bindE (exec_run c command) (\<lambda>(exit_code, output).
         if exit_code \<noteq> 0
         then raiseE (PlainException,
                ''Command failed: '' @ command @ [LF] @ '' Output: '' @ output)
         else returnE ()))"

definition ensure_dev_server_and_return_info :: "payload action" where
  "ensure_dev_server_and_return_info =
     with_container ''exec_run'' (\<lambda>c.
       bindE (exec_run c pgrep_vite) (\<lambda>(exit_code, output).
       bindE (if exit_code \<noteq> 0 then exec_run_detached c ''npm run dev -- --host''
              else returnE ()) (\<lambda>_.
       bindE container_reload (\<lambda>_.
       with_container ''attrs'' (\<lambda>c'. liftE (info_of c'))))))"

definition create_new_container :: "payload action" where
  "create_new_container =
     catch_all
       (bindE (\<lambda>s. containers_run (run_id s) s) (\<lambda>c.
        bindE (\<lambda>s. (Inr (), s\<lparr>container := Some c\<rparr>)) (\<lambda>_.
        bindE (run_command_strict (bootstrap_commands ! 0)) (\<lambda>_.
        bindE (run_command_strict (bootstrap_commands ! 1)) (\<lambda>_.
        bindE (run_command_strict (bootstrap_commands ! 2)) (\<lambda>_.
        ensure_dev_server_and_return_info))))))"

definition restart_previous_container :: "payload action" where
  "restart_previous_container =
     catch_all
       (bindE (\<lambda>s. containers_get (run_id s) s) (\<lambda>c.
        bindE (if cstatus c \<noteq> ''running'' then container_start c else returnE ()) (\<lambda>_.
        bindE (exec_run c pgrep_vite) (\<lambda>(exit_code, output).
        bindE (if exit_code \<noteq> 0 then exec_run_detached c ''npm run dev -- --host''
               else returnE ()) (\<lambda>_.
        bindE (liftE (host_port c)) (\<lambda>p.
        bindE (\<lambda>s. (Inr (), s\<lparr>container := Some c\<rparr>)) (\<lambda>_.
        returnE (InfoP (cname c) (''http://localhost:'' @ p)))))))))"

definition get_container :: "payload action" where
  "get_container s =
     (case containers_get (run_id s) s of
        (Inr c, s') \<Rightarrow> restart_previous_container s'
      | (Inl e, s') \<Rightarrow>
          if fst e = DockerNotFound then create_new_container s'
          else (Inr (ErrorP (snd e)), s'))"


section \<open>The path guard\<close>

definition get_safe_path :: "state \<Rightarrow> string \<Rightarrow> exn + path" where
  "get_safe_path s path_str =
     (let target_path = resolve (joinpath (project_dir s) path_str)
      in if \<not> prefix (str_path (resolve (project_dir s))) (str_path target_path)
         then Inl (PermissionError, ''Access Denied: Path outside workspace'')
         else Inr target_path)"


section \<open>Workspace operations\<close>

subsection \<open>Listing\<close>

text \<open>The loop over \<open>iterdir()\<close>; \<open>relative_to\<close> raises for an item outside \<open>project_dir\<close>.\<close>

fun collect_items :: "path \<Rightarrow> path \<Rightarrow> (string \<times> node) list \<Rightarrow> exn + entry list" where
  "collect_items pd target [] = Inr []"
| "collect_items pd target ((nm, child) # rest) =
     (case relative_to (target @ [nm]) pd of
        None \<Rightarrow>
          Inl (ValueError, str_path (target @ [nm]) @ '' is not in the subpath of '' @ str_path pd)
      | Some rel \<Rightarrow>
          (case collect_items pd target rest of
             Inl e \<Rightarrow> Inl e
           | Inr items \<Rightarrow>
               Inr (Entry nm (case child of Dir cs \<Rightarrow> ''folder'' | File c \<Rightarrow> ''file'')
                      (str_rel rel) # items)))"

definition entry_key :: "entry \<Rightarrow> bool \<times> string" where
  "entry_key x = (entry_type x \<noteq> ''folder'', entry_name x)"

definition list_files_body :: "string \<Rightarrow> payload action" where
  "list_files_body subpath s =
     (case get_safe_path s subpath of
        Inl e \<Rightarrow> (Inl e, s)
      | Inr target_path \<Rightarrow>
          (case lookup target_path (fs s) of
             None \<Rightarrow> (Inr (ErrorP ''Path does not exist''), s)
           | Some (File c) \<Rightarrow> (Inl (os_error NotADirectoryError target_path), s)
           | Some (Dir cs) \<Rightarrow>
               (case collect_items (project_dir s) target_path cs of
                  Inl e \<Rightarrow> (Inl e, s)
                | Inr items \<Rightarrow> (Inr (EntriesP (sort_key entry_key items)), s))))"

definition list_files :: "string \<Rightarrow> payload action" where
  "list_files subpath = require_container (list_files_body subpath)"

subsection \<open>Reading\<close>

definition read_file_body :: "string \<Rightarrow> payload action" where
  "read_file_body file_path s =
     (case get_safe_path s file_path of
        Inl e \<Rightarrow> (Inl e, s)
      | Inr target_path \<Rightarrow>
          if \<not> is_file target_path (fs s)
          then (Inr (ErrorP ''File not found or is a directory''), s)
          else (case open_read target_path (fs s) of
                  Inl e \<Rightarrow> (Inl e, s)
                | Inr content \<Rightarrow> (Inr (ContentP content), s)))"

definition read_file :: "string \<Rightarrow> payload action" where
  "read_file file_path = require_container (read_file_body file_path)"

text \<open>The table loop: \<open>idx\<close> starts at 1 and the table grows by one row per line.\<close>

definition table_header :: string where
  "table_header = ''| Line | Code |'' @ [LF] @ ''|---:|:---|'' @ [LF]"

fun table_loop :: "string \<Rightarrow> nat \<Rightarrow> string list \<Rightarrow> string" where
  "table_loop table idx [] = table"
| "table_loop table idx (line # lines) =
     (let safe_code = replace_all ''|'' [CHR 0x5C, CHR ''|''] (rstrip line)
      in table_loop (table @ ''| '' @ str_of_nat idx @ '' | '' @ safe_code @ '' |'' @ [LF])
           (Suc idx) lines)"

definition read_file_formatted_body :: "string \<Rightarrow> payload action" where
  "read_file_formatted_body file_path s =
     (case get_safe_path s file_path of
        Inl e \<Rightarrow> (Inl e, s)
      | Inr target_path \<Rightarrow>
          if \<not> is_file target_path (fs s)
          then (Inr (ErrorP ''File not found or is a directory''), s)
          else (case open_read target_path (fs s) of
                  Inl e \<Rightarrow> (Inl e, s)
                | Inr text \<Rightarrow> (Inr (ContentP (table_loop table_header 1 (readlines text))), s)))"

definition read_file_formatted :: "string \<Rightarrow> payload action" where
  "read_file_formatted file_path = require_container (read_file_formatted_body file_path)"

subsection \<open>Writing\<close>

definition write_file_folder_body :: "string \<Rightarrow> string \<Rightarrow> string option \<Rightarrow> payload action" where
  "write_file_folder_body path_str type_of_content content s =
     (case get_safe_path s path_str of
        Inl e \<Rightarrow> (Inl e, s)
      | Inr target_path \<Rightarrow>
          if type_of_content = ''folder'' then
            (case mkdir_parents target_path (fs s) of
               Inl e \<Rightarrow> (Inl e, s)
             | Inr fs1 \<Rightarrow>
                 (Inr (StatusP ''success'' (''Folder '' @ path_str @ '' created'')), s\<lparr>fs := fs1\<rparr>))
          else if type_of_content = ''file'' then
            (case mkdir_parents (parent target_path) (fs s) of
               Inl e \<Rightarrow> (Inl e, s)
             | Inr fs1 \<Rightarrow>
                 (case open_write target_path (case content of None \<Rightarrow> [] | Some c \<Rightarrow> c) fs1 of
                    Inl e \<Rightarrow> (Inl e, s\<lparr>fs := fs1\<rparr>)
                  | Inr fs2 \<Rightarrow>
                      (Inr (StatusP ''success'' (''File '' @ path_str @ '' created'')),
                       s\<lparr>fs := fs2\<rparr>)))
          else (Inr (ErrorP (''Invalid type. Must be '' @ [CHR 0x27] @ ''file'' @ [CHR 0x27]
                  @ '' or '' @ [CHR 0x27] @ ''folder'' @ [CHR 0x27])), s))"

definition write_file_folder :: "string \<Rightarrow> string \<Rightarrow> string option \<Rightarrow> payload action" where
  "write_file_folder path_str type_of_content content =
     require_container (write_file_folder_body path_str type_of_content content)"

subsection \<open>Deleting, searching, running\<close>

text \<open>\<open>delete_item\<close> carries no decorator in the source.\<close>

definition delete_item :: "string \<Rightarrow> payload action" where
  "delete_item path_str =
     with_container ''exec_run'' (\<lambda>c.
       bindE (exec_run c (''rm -rf '' @ path_str)) (\<lambda>(exit_code, output).
         if exit_code = 0 then returnE (StatusP ''success'' (''Deleted '' @ path_str))
         else returnE (ErrorP output)))"

text \<open>\<open>line.split(":", 2)\<close>: at most two splits, the rest stays in the last part.\<close>

fun split_max :: "char \<Rightarrow> nat \<Rightarrow> string \<Rightarrow> string list" where
  "split_max sep k [] = [[]]"
| "split_max sep k (c # cs) =
     (if c = sep \<and> 0 < k then [] # split_max sep (k - 1) cs
      else (case split_max sep k cs of [] \<Rightarrow> [[c]] | w # ws \<Rightarrow> (c # w) # ws))"

fun parse_matches :: "string list \<Rightarrow> search_match list" where
  "parse_matches [] = []"
| "parse_matches (line # lines) =
     (if line \<noteq> [] then
        (case split_max CHR '':'' 2 line of
           a # b # c # rest \<Rightarrow> Match a b (strip c) # parse_matches lines
         | _ \<Rightarrow> parse_matches lines)
      else parse_matches lines)"

definition search_content_body :: "string \<Rightarrow> payload action" where
  "search_content_body search_term =
     with_container ''exec_run'' (\<lambda>c.
       bindE (exec_run c (''grep -r -n -I '' @ [CHR 0x22] @ search_term @ [CHR 0x22] @ '' .''))
         (\<lambda>(exit_code, result).
            if exit_code \<noteq> 0 \<and> result = [] then returnE (MatchesP [])
            else returnE (MatchesP (parse_matches (split_on LF (strip result))))))"

definition search_content :: "string \<Rightarrow> payload action" where
  "search_content search_term = require_container (search_content_body search_term)"

definition run_command_body :: "string \<Rightarrow> payload action" where
  "run_command_body command =
     with_container ''exec_run'' (\<lambda>c.
       bindE (exec_run c command) (\<lambda>(exit_code, output). returnE (ResultP exit_code output)))"

definition run_command :: "string \<Rightarrow> payload action" where
  "run_command command = require_container (run_command_body command)"

definition check_lint_errors :: "payload action" where
  "check_lint_errors =
     require_container
       (with_container ''exec_run'' (\<lambda>c.
          bindE (exec_run c ''npx tsc --noEmit'') (\<lambda>(exit_code, output).
            returnE (ResultP exit_code output))))"

definition get_server_logs :: "int \<Rightarrow> payload action" where
  "get_server_logs n =
     require_container
       (catch_all
          (with_container ''logs'' (\<lambda>c.
             bindE (container_logs c n) (\<lambda>log_output. returnE (LogsP log_output)))))"

subsection \<open>Exact-block replacement\<close>

definition replace_code_body :: "string \<Rightarrow> string \<Rightarrow> string \<Rightarrow> payload action" where
  "replace_code_body file_path search_block replace_block s =
     (case get_safe_path s file_path of
        Inl e \<Rightarrow> (Inl e, s)
      | Inr target_path \<Rightarrow>
          if \<not> is_file target_path (fs s) then (Inr (ErrorP ''File not found''), s)
          else
            (case open_read target_path (fs s) of
               Inl e \<Rightarrow> (Inl e, s)
             | Inr content \<Rightarrow>
                 (let count = py_count search_block content in
                  if count = 0 then
                    (Inr (ErrorP ''Search block not found. Ensure whitespace/indentation matches exactly.''), s)
                  else if 1 < count then
                    (Inr (ErrorP (''Ambiguous match: Block found '' @ str_of_nat count
                       @ '' times. Include more surrounding lines in search_block.'')), s)
                  else
                    (case open_write target_path
                            (replace_first search_block replace_block content) (fs s) of
                       Inl e \<Rightarrow> (Inl e, s)
                     | Inr fs1 \<Rightarrow>
                         (Inr (StatusP ''success'' ''Code block replaced successfully.''),
                          s\<lparr>fs := fs1\<rparr>)))))"

definition replace_code :: "string \<Rightarrow> string \<Rightarrow> string \<Rightarrow> payload action" where
  "replace_code file_path search_block replace_block =
     require_container (replace_code_body file_path search_block replace_block)"

subsection \<open>Moving\<close>

definition move_item_body :: "string \<Rightarrow> string \<Rightarrow> payload action" where
  "move_item_body source_path destination_path s =
     (case get_safe_path s source_path of
        Inl e \<Rightarrow> (Inl e, s)
      | Inr src \<Rightarrow>
          (let dest = resolve (joinpath (project_dir s) destination_path) in
           if \<not> prefix (str_path (resolve (project_dir s))) (str_path dest)
           then (Inr (ErrorP ''Access denied: Destination outside workspace''), s)
           else if \<not> exists_path src (fs s) then (Inr (ErrorP ''Source file not found''), s)
           else if exists_path dest (fs s) then (Inr (ErrorP ''Destination already exists''), s)
           else
             (case mkdir_parents (parent dest) (fs s) of
                Inl e \<Rightarrow> (Inl e, s)
              | Inr fs1 \<Rightarrow>
                  (case shutil_move src dest fs1 of
                     Inl e \<Rightarrow> (Inl e, s\<lparr>fs := fs1\<rparr>)
                   | Inr fs2 \<Rightarrow>
                       (Inr (StatusP ''success''
                               (''Moved '' @ source_path @ '' to '' @ destination_path)),
                        s\<lparr>fs := fs2\<rparr>)))))"

definition move_item :: "string \<Rightarrow> string \<Rightarrow> payload action" where
  "move_item source_path destination_path =
     require_container (move_item_body source_path destination_path)"


section \<open>The invariant of the project directory\<close>

text \<open>
  The invariant behind "the project directory is never deleted": the session keeps its
  \<open>project_dir\<close>, the directory exists, and no command run inside the container
  removes it (it is the mount point of the bind mount).
\<close>

definition mount_kept :: "path \<Rightarrow> state \<Rightarrow> bool" where
  "mount_kept pd s \<longleftrightarrow>
     project_dir s = pd \<and> is_dir (resolve pd) (fs s)
     \<and> (\<forall>k cmd root. is_dir (resolve pd) root
            \<longrightarrow> is_dir (resolve pd) (snd (snd (exec_oracle s k cmd root))))"


section \<open>A concrete session\<close>

text \<open>
  A small world used to run the operations on concrete inputs: session \<open>abc\<close> below the
  workspace root \<open>/ws\<close>, next to the directory of another session \<open>abcd\<close>; the
  container is running, and every command exits with 0 and leaves the files alone.
\<close>

definition demo_container :: container where
  "demo_container = \<lparr>cname = ''abc'', cstatus = ''running'', cports = [(''5173/tcp'', Some [''32768''])]\<rparr>"

definition demo_fs :: node where
  "demo_fs =
     Dir [(''ws'',
           Dir [(''abc'',
                 Dir [(''b.txt'', File ''hello''), (''a'', Dir [(''old.ts'', File ''x'')]),
                      (''dup.txt'', File ''aaa''), (''one.txt'', File ''x''),
                      (''t.md'', File (''x|y  '' @ [LF] @ ''z''))]),
                (''abcd'', Dir [(''secret'', File ''s'')])])]"

definition demo :: state where
  "demo =
     \<lparr>run_id = ''abc'', workspace_root = [''ws''], project_dir = [''ws'', ''abc''],
      container = Some demo_container, fs = demo_fs,
      containers = [demo_container], exec_log = [],
      exec_oracle = (\<lambda>k cmd root. (0, [], root)), port_oracle = ''32768'',
      logs_oracle = (\<lambda>n. []), image_oracle = None\<rparr>"




section \<open>Facts about the file system\<close>

lemmas path_defs = get_safe_path_def resolve_def joinpath_def is_absolute_def parts_def
  str_path_def parent_def

lemmas fs_defs = is_dir_def is_file_def exists_path_def mkdir_parents_def open_write_def
  open_read_def shutil_move_def os_error_def errno_text_def

lemmas wrap_defs = require_container_def catch_all_def bindE_def returnE_def raiseE_def
  liftE_def with_container_def

lemmas demo_defs = demo_def demo_fs_def demo_container_def

lemma map_of_update_same: "map_of (AList.update k v al) k = Some v"
  by (simp add: update_conv')

lemma map_of_update_other: "k' \<noteq> k \<Longrightarrow> map_of (AList.update k v al) k' = map_of al k'"
  by (simp add: update_conv')

lemma map_of_delete_same: "map_of (AList.delete k al) k = None"
  by (simp add: delete_conv')

lemma map_of_delete_other: "k' \<noteq> k \<Longrightarrow> map_of (AList.delete k al) k' = map_of al k'"
  by (simp add: delete_conv')

lemma lookup_append:
  "lookup (p @ q) n = (case lookup p n of None \<Rightarrow> None | Some m \<Rightarrow> lookup q m)"
proof (induction p arbitrary: n)
  case Nil
  show ?case by simp
next
  case (Cons seg p)
  show ?case
    by (cases n) (simp_all add: Cons.IH split: option.splits)
qed

lemma lookup_prefix_None:
  assumes "prefix q p" and "lookup q n = None"
  shows "lookup p n = None"
  using assms by (auto simp: prefix_def lookup_append)

lemma mkdir_p_is_dir:
  "mkdir_p p n = Inr n' \<Longrightarrow> \<exists>cs. lookup p n' = Some (Dir cs)"
proof (induction p arbitrary: n n')
  case Nil
  then show ?case by (cases n) auto
next
  case (Cons seg p)
  then show ?case
    by (cases n) (auto simp: map_of_update_same split: sum.splits)
qed

lemma mkdir_p_other:
  "mkdir_p p n = Inr n' \<Longrightarrow> \<not> prefix q p \<Longrightarrow> lookup q n' = lookup q n"
proof (induction p arbitrary: n n' q)
  case Nil
  then show ?case by (cases n) auto
next
  case (Cons seg p)
  obtain s q' where q: "q = s # q'" using Cons.prems(2) by (cases q) auto
  show ?case
  proof (cases n)
    case (File c)
    with Cons.prems show ?thesis by simp
  next
    case (Dir cs)
    from Cons.prems(1) Dir obtain m' where
      m': "mkdir_p p (case map_of cs seg of None \<Rightarrow> Dir [] | Some m \<Rightarrow> m) = Inr m'"
      and n': "n' = Dir (AList.update seg m' cs)"
      by (auto split: sum.splits)
    show ?thesis
    proof (cases "s = seg")
      case False
      then show ?thesis using q Dir n' by (simp add: map_of_update_other)
    next
      case True
      with Cons.prems(2) q have np: "\<not> prefix q' p" by simp
      have "lookup q' m' = lookup q' (case map_of cs seg of None \<Rightarrow> Dir [] | Some m \<Rightarrow> m)"
        by (rule Cons.IH [OF m' np])
      moreover have "q' \<noteq> []" using np by auto
      ultimately show ?thesis using q Dir n' True
        by (cases q') (auto simp: map_of_update_same split: option.splits)
    qed
  qed
qed

lemma mkdir_p_ok_iff:
  "(\<exists>n'. mkdir_p p n = Inr n') \<longleftrightarrow> \<not> list_ex (\<lambda>q. is_file q n) (prefixes p)"
proof (induction p arbitrary: n)
  case Nil
  show ?case by (cases n) (auto simp: is_file_def)
next
  case (Cons seg p)
  show ?case
  proof (cases n)
    case (File c)
    then show ?thesis by (simp add: is_file_def)
  next
    case (Dir cs)
    let ?m = "case map_of cs seg of None \<Rightarrow> Dir [] | Some m \<Rightarrow> m"
    have a: "(\<exists>n'. mkdir_p (seg # p) n = Inr n') \<longleftrightarrow> (\<exists>m'. mkdir_p p ?m = Inr m')"
      using Dir by (auto split: sum.splits)
    have b: "is_file (seg # q) n = is_file q ?m" for q
      using Dir by (cases q) (auto simp: is_file_def split: option.splits)
    have "list_ex (\<lambda>q. is_file q n) (prefixes (seg # p)) = list_ex (\<lambda>q. is_file q ?m) (prefixes p)"
      using Dir b by (simp add: list_ex_iff is_file_def image_iff) 
    with a Cons.IH [of ?m] show ?thesis by simp
  qed
qed

lemma attach_at_lookup:
  "attach_at p x n = Inr n' \<Longrightarrow> lookup p n' = Some x"
proof (induction p arbitrary: n n')
  case Nil
  then show ?case by simp
next
  case (Cons seg p)
  then show ?case
    by (cases n) (auto simp: map_of_update_same split: sum.splits if_splits option.splits)
qed

lemma attach_at_other:
  "attach_at p x n = Inr n' \<Longrightarrow> \<not> prefix q p \<Longrightarrow> \<not> prefix p q \<Longrightarrow> lookup q n' = lookup q n"
proof (induction p arbitrary: n n' q)
  case Nil
  then show ?case by simp
next
  case (Cons seg p)
  obtain s q' where q: "q = s # q'" using Cons.prems(2) by (cases q) auto
  show ?case
  proof (cases n)
    case (File c)
    with Cons.prems show ?thesis by simp
  next
    case (Dir cs)
    show ?thesis
    proof (cases "s = seg")
      case False
      then show ?thesis using q Dir Cons.prems(1)
        by (auto simp: map_of_update_other split: if_splits option.splits sum.splits)
    next
      case True
      with Cons.prems q have np: "\<not> prefix q' p" "\<not> prefix p q'" by simp_all
      then have pne: "p \<noteq> []" by auto
      from Cons.prems(1) Dir pne obtain c c' where
        c: "map_of cs seg = Some c" and c': "attach_at p x c = Inr c'"
        and n': "n' = Dir (AList.update seg c' cs)"
        by (auto split: option.splits sum.splits)
      have "lookup q' c' = lookup q' c" by (rule Cons.IH [OF c' np])
      then show ?thesis using q Dir n' True c by (simp add: map_of_update_same)
    qed
  qed
qed

lemma attach_at_ok:
  "p \<noteq> [] \<Longrightarrow> is_dir (butlast p) n \<Longrightarrow> \<exists>n'. attach_at p x n = Inr n'"
proof (induction p arbitrary: n)
  case Nil
  then show ?case by simp
next
  case (Cons seg p)
  show ?case
  proof (cases n)
    case (File c)
    with Cons.prems show ?thesis by (cases p) (auto simp: is_dir_def)
  next
    case (Dir cs)
    show ?thesis
    proof (cases "p = []")
      case True
      then show ?thesis using Dir by simp
    next
      case False
      with Cons.prems Dir obtain c where c: "map_of cs seg = Some c" and d: "is_dir (butlast p) c"
        by (auto simp: is_dir_def split: option.splits)
      from Cons.IH [OF False d] obtain c' where "attach_at p x c = Inr c'" by blast
      then show ?thesis using Dir False c by simp
    qed
  qed
qed

lemma remove_at_gone: "p \<noteq> [] \<Longrightarrow> lookup p (remove_at p n) = None"
proof (induction p arbitrary: n)
  case Nil
  then show ?case by simp
next
  case (Cons seg p)
  show ?case
  proof (cases n)
    case (File c)
    then show ?thesis by simp
  next
    case (Dir cs)
    show ?thesis
    proof (cases "p = []")
      case True
      then show ?thesis using Dir by (simp add: map_of_delete_same)
    next
      case False
      then show ?thesis using Dir Cons.IH [OF False]
        by (auto simp: map_of_update_same split: option.splits)
    qed
  qed
qed

lemma remove_at_absent: "lookup q n = None \<Longrightarrow> lookup q (remove_at p n) = None"
proof (induction p arbitrary: n q)
  case Nil
  then show ?case by simp
next
  case (Cons seg p)
  show ?case
  proof (cases n)
    case (File c)
    with Cons.prems show ?thesis by simp
  next
    case (Dir cs)
    obtain s q' where q: "q = s # q'" using Cons.prems by (cases q) auto
    show ?thesis
    proof (cases "s = seg")
      case False
      then show ?thesis using q Dir Cons.prems
        by (auto simp: map_of_update_other map_of_delete_other split: option.splits)
    next
      case True
      then show ?thesis using q Dir Cons.prems Cons.IH [of q']
        by (auto simp: map_of_update_same map_of_delete_same split: option.splits)
    qed
  qed
qed

lemma remove_at_other:
  "\<not> prefix p q \<Longrightarrow> \<not> prefix q p \<Longrightarrow> lookup q (remove_at p n) = lookup q n"
proof (induction p arbitrary: n q)
  case Nil
  then show ?case by simp
next
  case (Cons seg p)
  obtain s q' where q: "q = s # q'" using Cons.prems(2) by (cases q) auto
  show ?case
  proof (cases n)
    case (File c)
    then show ?thesis by simp
  next
    case (Dir cs)
    show ?thesis
    proof (cases "s = seg")
      case False
      then show ?thesis using q Dir
        by (auto simp: map_of_update_other map_of_delete_other split: option.splits)
    next
      case True
      with Cons.prems q have np: "\<not> prefix p q'" "\<not> prefix q' p" by simp_all
      then have "p \<noteq> []" by auto
      then show ?thesis using q Dir True Cons.IH [OF np]
        by (auto simp: map_of_update_same split: option.splits)
    qed
  qed
qed

lemma remove_at_keeps_dir:
  "\<not> prefix p q \<Longrightarrow> is_dir q n \<Longrightarrow> is_dir q (remove_at p n)"
proof (induction p arbitrary: n q)
  case Nil
  then show ?case by simp
next
  case (Cons seg p)
  show ?case
  proof (cases n)
    case (File c)
    then show ?thesis using Cons.prems by simp
  next
    case (Dir cs)
    show ?thesis
    proof (cases q)
      case Nil
      then show ?thesis using Dir by (auto simp: is_dir_def split: option.splits)
    next
      case (Cons s q')
      show ?thesis
      proof (cases "s = seg")
        case False
        then show ?thesis using Cons Dir Cons.prems
          by (auto simp: is_dir_def map_of_update_other map_of_delete_other split: option.splits)
      next
        case True
        with Cons.prems Cons have np: "\<not> prefix p q'" by simp
        then have pne: "p \<noteq> []" by auto
        from Cons.prems(2) Cons Dir True obtain c where
          c: "map_of cs seg = Some c" and d: "is_dir q' c"
          by (auto simp: is_dir_def split: option.splits)
        have "is_dir q' (remove_at p c)" by (rule Cons.IH [OF np d])
        then show ?thesis using Cons Dir True c pne
          by (simp add: is_dir_def map_of_update_same)
      qed
    qed
  qed
qed

lemma translate_newlines_id: "CR \<notin> set c \<Longrightarrow> translate_newlines c = c"
  by (induction c rule: translate_newlines.induct) auto

lemma get_safe_path_fs [simp]: "get_safe_path (s\<lparr>fs := x\<rparr>) p = get_safe_path s p"
  by (simp add: get_safe_path_def)

lemma lookup_snoc_parent:
  assumes "p \<noteq> []" and "lookup p n = Some x"
  shows "is_dir (butlast p) n"
proof -
  from assms(1) obtain q seg where p: "p = q @ [seg]" by (metis append_butlast_last_id)
  with assms(2) obtain m where m: "lookup q n = Some m" and x: "lookup [seg] m = Some x"
    by (auto simp: lookup_append split: option.splits)
  from x have "\<exists>cs. m = Dir cs" by (cases m) auto
  with m p show ?thesis by (auto simp: is_dir_def)
qed

lemma not_prefix_butlast: "p \<noteq> [] \<Longrightarrow> \<not> prefix p (butlast p)"
  by (cases p rule: rev_cases) (auto dest!: prefix_length_le)

lemma prefix_butlast_imp: "prefix q (butlast p) \<Longrightarrow> prefix q p"
  using prefixeq_butlast [of p] prefix_order.trans by blast


section \<open>The path guard (C1)\<close>

lemma str_path_prefix:
  assumes "prefix p q"
  shows "prefix (str_path p) (str_path q)"
proof (cases "p = []")
  case True
  then show ?thesis by (cases q) (simp_all add: str_path_def)
next
  case False
  from assms obtain zs where "q = p @ zs" by (auto simp: prefix_def)
  with False show ?thesis by (simp add: str_path_def)
qed

lemma guard_accepts_inside:
  assumes "prefix (resolve (project_dir s)) (resolve (joinpath (project_dir s) path_str))"
  shows "get_safe_path s path_str = Inr (resolve (joinpath (project_dir s) path_str))"
  using str_path_prefix [OF assms] by (simp add: get_safe_path_def)

text \<open>
  Claim C1: the guard should fail with \<open>PermissionError\<close> for every relative path whose
  canonical resolution lies outside \<open>project_dir\<close>.  The guard compares the string
  forms, so from session \<open>/ws/abc\<close> the path \<open>../abcd/secret\<close>, which resolves into the
  sibling directory \<open>/ws/abcd\<close>, is accepted: the guard returns the outside path, and
  \<open>read_file\<close> returns the content of the file there.
\<close>

theorem guard_accepts_sibling_with_common_prefix:
  "get_safe_path demo ''../abcd/secret'' = Inr [''ws'', ''abcd'', ''secret'']
   \<and> \<not> prefix (resolve (project_dir demo)) [''ws'', ''abcd'', ''secret'']
   \<and> fst (read_file ''../abcd/secret'' demo) = Inr (ContentP ''s'')"
  by (simp add: read_file_def read_file_body_def path_defs demo_defs fs_defs wrap_defs
      CR_def LF_def)


section \<open>Operations without a container (C2)\<close>

lemma require_container_None:
  "container s = None \<Longrightarrow>
   require_container f s = (Inr (ErrorP ''No container running. Start the container first''), s)"
  by (simp add: require_container_def)

lemma decorated_operations_without_container:
  assumes "container s = None"
  shows "list_files a s = (Inr (ErrorP ''No container running. Start the container first''), s)"
    and "read_file a s = (Inr (ErrorP ''No container running. Start the container first''), s)"
    and "read_file_formatted a s = (Inr (ErrorP ''No container running. Start the container first''), s)"
    and "write_file_folder a t c s = (Inr (ErrorP ''No container running. Start the container first''), s)"
    and "search_content a s = (Inr (ErrorP ''No container running. Start the container first''), s)"
    and "replace_code a b d s = (Inr (ErrorP ''No container running. Start the container first''), s)"
    and "move_item a b s = (Inr (ErrorP ''No container running. Start the container first''), s)"
    and "run_command a s = (Inr (ErrorP ''No container running. Start the container first''), s)"
    and "check_lint_errors s = (Inr (ErrorP ''No container running. Start the container first''), s)"
    and "get_server_logs n s = (Inr (ErrorP ''No container running. Start the container first''), s)"
  using assms
  by (simp_all add: require_container_None list_files_def read_file_def read_file_formatted_def
      write_file_folder_def search_content_def replace_code_def move_item_def run_command_def
      check_lint_errors_def get_server_logs_def)

text \<open>
  Claim C2: every public workspace operation, called while no container has been
  acquired, should return the payload \<open>{error: "No container running..."}\<close>.  Ten of the
  eleven operations do (lemma \<open>decorated_operations_without_container\<close>);
  \<open>delete_item\<close> has no decorator and, with \<open>self.container\<close> being \<open>None\<close>, lets an
  \<open>AttributeError\<close> escape instead of returning a payload.  The state is left as it was.
\<close>

theorem delete_item_without_container_raises:
  "delete_item path_str (s\<lparr>container := None\<rparr>)
     = (Inl (AttributeError,
             [CHR 0x27] @ ''NoneType'' @ [CHR 0x27] @ '' object has no attribute ''
               @ [CHR 0x27] @ ''exec_run'' @ [CHR 0x27]),
        s\<lparr>container := None\<rparr>)"
  by (simp add: delete_item_def with_container_def)


section \<open>Writing and reading back (C5)\<close>

text \<open>
  Claim C5, amended: for every path that the guard accepts, whose target is not an
  existing directory and has no regular file among its ancestors, and for every string
  content, \<open>write(path, "file", content)\<close> succeeds and the following \<open>read(path)\<close>
  returns the content with universal newlines applied (\<open>CR LF\<close> and \<open>CR\<close> read back
  as \<open>LF\<close>); it returns exactly the content when the content has no carriage return.
\<close>

theorem write_then_read:
  assumes c: "container s \<noteq> None" and g: "get_safe_path s p = Inr target"
    and nd: "\<not> is_dir target (fs s)"
    and nf: "\<not> list_ex (\<lambda>q. is_file q (fs s)) (prefixes (parent target))"
  shows "\<exists>s'. write_file_folder p ''file'' (Some content) s
                 = (Inr (StatusP ''success'' (''File '' @ p @ '' created'')), s')
            \<and> read_file p s' = (Inr (ContentP (translate_newlines content)), s')
            \<and> (CR \<notin> set content \<longrightarrow> read_file p s' = (Inr (ContentP content), s'))"
proof -
  from nf obtain fs1 where mk: "mkdir_p (parent target) (fs s) = Inr fs1"
    using mkdir_p_ok_iff [of "parent target" "fs s"] by blast
  have tne: "target \<noteq> []"
  proof
    assume "target = []"
    with mk nd show False by (cases "fs s") (auto simp: parent_def is_dir_def)
  qed
  have pd: "is_dir (butlast target) fs1"
    using mkdir_p_is_dir [OF mk] by (auto simp: is_dir_def parent_def)
  have same: "lookup target fs1 = lookup target (fs s)"
    using mkdir_p_other [OF mk] not_prefix_butlast [OF tne] by (simp add: parent_def)
  with nd have nd1: "\<not> is_dir target fs1" by (simp add: is_dir_def)
  from attach_at_ok [OF tne pd] obtain fs2 where at: "attach_at target (File content) fs1 = Inr fs2"
    by blast
  have lk: "lookup target fs2 = Some (File content)" by (rule attach_at_lookup [OF at])
  let ?s' = "s\<lparr>fs := fs2\<rparr>"
  have w: "write_file_folder p ''file'' (Some content) s
             = (Inr (StatusP ''success'' (''File '' @ p @ '' created'')), ?s')"
    using c g mk nd1 at
    by (simp add: write_file_folder_def require_container_def catch_all_def
        write_file_folder_body_def mkdir_parents_def open_write_def)
  have r: "read_file p ?s' = (Inr (ContentP (translate_newlines content)), ?s')"
    using c g lk
    by (simp add: read_file_def require_container_def catch_all_def read_file_body_def
        is_file_def open_read_def)
  from w r show ?thesis by (auto simp: translate_newlines_id)
qed

theorem write_then_read_witness:
  "container demo \<noteq> None
   \<and> get_safe_path demo ''n.txt'' = Inr [''ws'', ''abc'', ''n.txt'']
   \<and> \<not> is_dir [''ws'', ''abc'', ''n.txt''] (fs demo)
   \<and> \<not> list_ex (\<lambda>q. is_file q (fs demo)) (prefixes (parent [''ws'', ''abc'', ''n.txt'']))
   \<and> (\<exists>s'. write_file_folder ''n.txt'' ''file'' (Some (''a|b'' @ [LF] @ ''c'')) demo
                 = (Inr (StatusP ''success'' (''File '' @ ''n.txt'' @ '' created'')), s')
            \<and> read_file ''n.txt'' s' = (Inr (ContentP (''a|b'' @ [LF] @ ''c'')), s'))"
proof -
  have h: "container demo \<noteq> None"
    "get_safe_path demo ''n.txt'' = Inr [''ws'', ''abc'', ''n.txt'']"
    "\<not> is_dir [''ws'', ''abc'', ''n.txt''] (fs demo)"
    "\<not> list_ex (\<lambda>q. is_file q (fs demo)) (prefixes (parent [''ws'', ''abc'', ''n.txt'']))"
    by (simp_all add: path_defs demo_defs fs_defs)
  have n: "CR \<notin> set (''a|b'' @ [LF] @ ''c'')"
    by (simp add: CR_def LF_def)
  from write_then_read [OF h, of "''a|b'' @ [LF] @ ''c''"] n h show ?thesis
    by blast
qed

text \<open>
  The claim as stated fails twice in session \<open>abc\<close>: the content \<open>a CR b\<close> is read
  back as \<open>a LF b\<close>, and the accepted path \<open>a\<close>, an existing directory, cannot be
  written as a file, so the read returns an error.
\<close>

theorem write_then_read_counterexample:
  "get_safe_path demo ''n.txt'' = Inr [''ws'', ''abc'', ''n.txt'']
   \<and> prefix (project_dir demo) [''ws'', ''abc'', ''n.txt'']
   \<and> fst (read_file ''n.txt''
            (snd (write_file_folder ''n.txt'' ''file'' (Some [CHR ''a'', CR, CHR ''b'']) demo)))
       \<noteq> Inr (ContentP [CHR ''a'', CR, CHR ''b''])
   \<and> get_safe_path demo ''a'' = Inr [''ws'', ''abc'', ''a'']
   \<and> prefix (project_dir demo) [''ws'', ''abc'', ''a'']
   \<and> fst (read_file ''a'' (snd (write_file_folder ''a'' ''file'' (Some ''x'') demo)))
       \<noteq> Inr (ContentP ''x'')"
  by (simp add: write_file_folder_def write_file_folder_body_def read_file_def read_file_body_def
      path_defs demo_defs fs_defs wrap_defs CR_def LF_def)


section \<open>Moving (C7)\<close>

text \<open>
  Claim C7, amended: for every pair of guarded paths, \<open>move(src, dest)\<close> returns the
  error payload and changes nothing when \<open>src\<close> is missing or when \<open>dest\<close> already
  exists; otherwise, provided \<open>dest\<close> does not lie inside \<open>src\<close> and no ancestor of
  \<open>dest\<close> is a regular file, it creates the parent directories of \<open>dest\<close> and succeeds,
  and afterwards \<open>src\<close> is absent and \<open>dest\<close> holds what \<open>src\<close> held.
\<close>

theorem move_item_cases:
  assumes c: "container s \<noteq> None" and g: "get_safe_path s sp = Inr src"
    and d: "dest = resolve (joinpath (project_dir s) dp)"
    and dg: "prefix (str_path (resolve (project_dir s))) (str_path dest)"
  shows "(\<not> exists_path src (fs s) \<longrightarrow>
            move_item sp dp s = (Inr (ErrorP ''Source file not found''), s))
       \<and> (exists_path src (fs s) \<and> exists_path dest (fs s) \<longrightarrow>
            move_item sp dp s = (Inr (ErrorP ''Destination already exists''), s))
       \<and> (exists_path src (fs s) \<and> \<not> exists_path dest (fs s) \<and> \<not> prefix src dest
            \<and> \<not> list_ex (\<lambda>q. is_file q (fs s)) (prefixes (parent dest)) \<longrightarrow>
            (\<exists>s'. move_item sp dp s
                     = (Inr (StatusP ''success'' (''Moved '' @ sp @ '' to '' @ dp)), s')
                 \<and> is_dir (parent dest) (fs s')
                 \<and> \<not> exists_path src (fs s')
                 \<and> exists_path dest (fs s')
                 \<and> lookup dest (fs s') = lookup src (fs s)))"
proof (intro conjI impI)
  assume "\<not> exists_path src (fs s)"
  then show "move_item sp dp s = (Inr (ErrorP ''Source file not found''), s)"
    using c g d dg
    by (simp add: move_item_def move_item_body_def require_container_def catch_all_def)
next
  assume "exists_path src (fs s) \<and> exists_path dest (fs s)"
  then show "move_item sp dp s = (Inr (ErrorP ''Destination already exists''), s)"
    using c g d dg
    by (simp add: move_item_def move_item_body_def require_container_def catch_all_def)
next
  assume a: "exists_path src (fs s) \<and> \<not> exists_path dest (fs s) \<and> \<not> prefix src dest
            \<and> \<not> list_ex (\<lambda>q. is_file q (fs s)) (prefixes (parent dest))"
  then obtain n where n: "lookup src (fs s) = Some n"
    by (auto simp: exists_path_def)
  from a have dn: "lookup dest (fs s) = None" and np: "\<not> prefix src dest"
    by (auto simp: exists_path_def)
  from a obtain fs1 where mk: "mkdir_p (parent dest) (fs s) = Inr fs1"
    using mkdir_p_ok_iff [of "parent dest" "fs s"] by blast
  have dne: "dest \<noteq> []" using dn by auto
  have np': "\<not> prefix src (butlast dest)" using np prefix_butlast_imp by blast
  have nds: "\<not> prefix dest src" using lookup_prefix_None [OF _ dn, of src] n by auto
  have src1: "lookup src fs1 = Some n"
    using mkdir_p_other [OF mk, of src] np' n by (simp add: parent_def)
  have dest1: "lookup dest fs1 = None"
    using mkdir_p_other [OF mk, of dest] not_prefix_butlast [OF dne] dn by (simp add: parent_def)
  have pd1: "is_dir (butlast dest) fs1"
    using mkdir_p_is_dir [OF mk] by (auto simp: is_dir_def parent_def)
  have pd2: "is_dir (butlast dest) (remove_at src fs1)"
    by (rule remove_at_keeps_dir [OF np' pd1])
  from attach_at_ok [OF dne pd2] obtain fs2 where
    at: "attach_at dest n (remove_at src fs1) = Inr fs2" by blast
  have mv: "shutil_move src dest fs1 = Inr fs2"
    using src1 dest1 np at by (simp add: shutil_move_def exists_path_def)
  have l1: "lookup dest fs2 = Some n" by (rule attach_at_lookup [OF at])
  have sne: "src \<noteq> []" using np by auto
  have l2: "lookup src fs2 = None"
    using attach_at_other [OF at np nds] remove_at_gone [OF sne] by simp
  have l3: "is_dir (parent dest) fs2"
    using lookup_snoc_parent [OF dne l1] by (simp add: parent_def)
  let ?s' = "s\<lparr>fs := fs2\<rparr>"
  have "move_item sp dp s = (Inr (StatusP ''success'' (''Moved '' @ sp @ '' to '' @ dp)), ?s')"
    using c g d dg n dn mk mv
    by (simp add: move_item_def move_item_body_def require_container_def catch_all_def
        exists_path_def mkdir_parents_def)
  with l1 l2 l3 n show "\<exists>s'. move_item sp dp s
                     = (Inr (StatusP ''success'' (''Moved '' @ sp @ '' to '' @ dp)), s')
                 \<and> is_dir (parent dest) (fs s')
                 \<and> \<not> exists_path src (fs s')
                 \<and> exists_path dest (fs s')
                 \<and> lookup dest (fs s') = lookup src (fs s)"
    by (auto simp: exists_path_def)
qed

theorem move_item_cases_witness:
  "container demo \<noteq> None
   \<and> get_safe_path demo ''a'' = Inr [''ws'', ''abc'', ''a'']
   \<and> [''ws'', ''abc'', ''lib'', ''a2''] = resolve (joinpath (project_dir demo) ''lib/a2'')
   \<and> prefix (str_path (resolve (project_dir demo))) (str_path [''ws'', ''abc'', ''lib'', ''a2''])
   \<and> exists_path [''ws'', ''abc'', ''a''] (fs demo)
   \<and> \<not> exists_path [''ws'', ''abc'', ''lib'', ''a2''] (fs demo)
   \<and> \<not> prefix [''ws'', ''abc'', ''a''] [''ws'', ''abc'', ''lib'', ''a2'']
   \<and> \<not> list_ex (\<lambda>q. is_file q (fs demo)) (prefixes (parent [''ws'', ''abc'', ''lib'', ''a2'']))
   \<and> (\<exists>s'. move_item ''a'' ''lib/a2'' demo
              = (Inr (StatusP ''success'' (''Moved '' @ ''a'' @ '' to '' @ ''lib/a2'')), s')
          \<and> is_dir (parent [''ws'', ''abc'', ''lib'', ''a2'']) (fs s')
          \<and> \<not> exists_path [''ws'', ''abc'', ''a''] (fs s')
          \<and> exists_path [''ws'', ''abc'', ''lib'', ''a2''] (fs s')
          \<and> lookup [''ws'', ''abc'', ''lib'', ''a2''] (fs s') = lookup [''ws'', ''abc'', ''a''] (fs demo))"
proof -
  have h: "container demo \<noteq> None"
    "get_safe_path demo ''a'' = Inr [''ws'', ''abc'', ''a'']"
    "[''ws'', ''abc'', ''lib'', ''a2''] = resolve (joinpath (project_dir demo) ''lib/a2'')"
    "prefix (str_path (resolve (project_dir demo))) (str_path [''ws'', ''abc'', ''lib'', ''a2''])"
    by (simp_all add: path_defs demo_defs)
  have k: "exists_path [''ws'', ''abc'', ''a''] (fs demo)"
    "\<not> exists_path [''ws'', ''abc'', ''lib'', ''a2''] (fs demo)"
    "\<not> prefix [''ws'', ''abc'', ''a''] [''ws'', ''abc'', ''lib'', ''a2'']"
    "\<not> list_ex (\<lambda>q. is_file q (fs demo)) (prefixes (parent [''ws'', ''abc'', ''lib'', ''a2'']))"
    by (simp_all add: path_defs demo_defs fs_defs)
  from move_item_cases [OF h] h k show ?thesis by blast
qed

text \<open>
  The claim as stated fails for a destination inside the source: in session \<open>abc\<close> the
  directory \<open>a\<close> exists and \<open>a/b\<close> does not, yet \<open>move("a", "a/b")\<close> returns an error,
  and afterwards \<open>a\<close> is still present and \<open>a/b\<close> still absent.
\<close>

theorem move_item_counterexample:
  "get_safe_path demo ''a'' = Inr [''ws'', ''abc'', ''a'']
   \<and> resolve (joinpath (project_dir demo) ''a/b'') = [''ws'', ''abc'', ''a'', ''b'']
   \<and> prefix (project_dir demo) [''ws'', ''abc'', ''a'', ''b'']
   \<and> exists_path [''ws'', ''abc'', ''a''] (fs demo)
   \<and> \<not> exists_path [''ws'', ''abc'', ''a'', ''b''] (fs demo)
   \<and> fst (move_item ''a'' ''a/b'' demo)
       = Inr (ErrorP (''Cannot move a directory '' @ [CHR 0x27] @ ''/ws/abc/a'' @ [CHR 0x27]
                @ '' into itself '' @ [CHR 0x27] @ ''/ws/abc/a/b'' @ [CHR 0x27] @ ''.''))
   \<and> exists_path [''ws'', ''abc'', ''a''] (fs (snd (move_item ''a'' ''a/b'' demo)))
   \<and> \<not> exists_path [''ws'', ''abc'', ''a'', ''b''] (fs (snd (move_item ''a'' ''a/b'' demo)))"
  by (simp add: move_item_def move_item_body_def path_defs demo_defs fs_defs wrap_defs)


section \<open>Listing (C8)\<close>

lemma collect_items_inside:
  assumes "prefix pd target"
  shows "collect_items pd target cs
           = Inr (map (\<lambda>(nm, child).
                    Entry nm (case child of Dir ds \<Rightarrow> ''folder'' | File c \<Rightarrow> ''file'')
                      (str_rel (drop (length pd) (target @ [nm])))) cs)"
proof (induction cs)
  case Nil
  show ?case by simp
next
  case (Cons nc cs)
  obtain nm child where nc: "nc = (nm, child)" by (cases nc)
  have "prefix pd (target @ [nm])" using assms by (simp add: prefix_prefix)
  with Cons nc show ?case by (simp add: relative_to_def)
qed

lemma entry_key_order:
  assumes "entry_key x \<le> entry_key y"
    and "entry_type x = ''folder'' \<or> entry_type x = ''file''"
    and "entry_type y = ''folder'' \<or> entry_type y = ''file''"
  shows "(entry_type x = ''folder'' \<and> entry_type y = ''file'')
       \<or> (entry_type x = entry_type y \<and> entry_name x \<le> entry_name y)"
  using assms by (auto simp: entry_key_def less_eq_prod_def)

text \<open>
  With a \<open>project_dir\<close> that is a prefix of the resolved target (a canonical
  \<open>project_dir\<close> and a path inside it), listing works as specified: a missing target
  gives the payload \<open>Path does not exist\<close>, and an existing directory gives one entry
  per immediate child and no other entry, all folders before all files and by name
  within each group.
\<close>

lemma list_files_inside_project_dir:
  assumes c: "container s \<noteq> None" and g: "get_safe_path s subpath = Inr target"
    and inside: "prefix (project_dir s) target"
  shows "(lookup target (fs s) = None \<longrightarrow>
            list_files subpath s = (Inr (ErrorP ''Path does not exist''), s))
       \<and> (\<forall>cs. lookup target (fs s) = Some (Dir cs) \<longrightarrow>
            (\<exists>es. list_files subpath s = (Inr (EntriesP es), s)
              \<and> mset es
                  = mset (map (\<lambda>(nm, child).
                       Entry nm (case child of Dir ds \<Rightarrow> ''folder'' | File c \<Rightarrow> ''file'')
                         (str_rel (drop (length (project_dir s)) (target @ [nm])))) cs)
              \<and> sorted_wrt (\<lambda>x y. (entry_type x = ''folder'' \<and> entry_type y = ''file'')
                    \<or> (entry_type x = entry_type y \<and> entry_name x \<le> entry_name y)) es))"
proof (intro conjI impI allI)
  assume "lookup target (fs s) = None"
  then show "list_files subpath s = (Inr (ErrorP ''Path does not exist''), s)"
    using c g by (simp add: list_files_def list_files_body_def require_container_def catch_all_def)
next
  fix cs
  assume d: "lookup target (fs s) = Some (Dir cs)"
  let ?items = "map (\<lambda>(nm, child).
                       Entry nm (case child of Dir ds \<Rightarrow> ''folder'' | File c \<Rightarrow> ''file'')
                         (str_rel (drop (length (project_dir s)) (target @ [nm])))) cs"
  let ?es = "sort_key entry_key ?items"
  have r: "list_files subpath s = (Inr (EntriesP ?es), s)"
    using c g d collect_items_inside [OF inside, of cs]
    by (simp add: list_files_def list_files_body_def require_container_def catch_all_def)
  have m: "mset ?es = mset ?items" by simp
  have ty: "entry_type x = ''folder'' \<or> entry_type x = ''file''" if "x \<in> set ?es" for x
    using that by (auto split: node.splits)
  have "sorted (map entry_key ?es)" by (rule sorted_sort_key)
  then have k: "sorted_wrt (\<lambda>x y. entry_key x \<le> entry_key y) ?es"
    by (simp add: sorted_map)
  have "sorted_wrt (\<lambda>x y. (entry_type x = ''folder'' \<and> entry_type y = ''file'')
                    \<or> (entry_type x = entry_type y \<and> entry_name x \<le> entry_name y)) ?es"
  proof (rule sorted_wrt_mono_rel [OF _ k])
    fix x y
    assume "x \<in> set ?es" and "y \<in> set ?es" and "entry_key x \<le> entry_key y"
    then show "(entry_type x = ''folder'' \<and> entry_type y = ''file'')
                    \<or> (entry_type x = entry_type y \<and> entry_name x \<le> entry_name y)"
      using entry_key_order ty by blast
  qed
  with r m show "\<exists>es. list_files subpath s = (Inr (EntriesP es), s)
              \<and> mset es
                  = mset (map (\<lambda>(nm, child).
                       Entry nm (case child of Dir ds \<Rightarrow> ''folder'' | File c \<Rightarrow> ''file'')
                         (str_rel (drop (length (project_dir s)) (target @ [nm])))) cs)
              \<and> sorted_wrt (\<lambda>x y. (entry_type x = ''folder'' \<and> entry_type y = ''file'')
                    \<or> (entry_type x = entry_type y \<and> entry_name x \<le> entry_name y)) es"
    by blast
qed

lemma list_files_of_the_concrete_session:
  "list_files ''.'' demo
     = (Inr (EntriesP [Entry ''a'' ''folder'' ''a'', Entry ''b.txt'' ''file'' ''b.txt'',
                       Entry ''dup.txt'' ''file'' ''dup.txt'', Entry ''one.txt'' ''file'' ''one.txt'',
                       Entry ''t.md'' ''file'' ''t.md'']), demo)"
  by (simp add: list_files_def list_files_body_def relative_to_def str_rel_def entry_key_def
      path_defs fs_defs wrap_defs demo_defs less_eq_prod_def)

text \<open>
  Claim C8: for every existing directory, \<open>list(subpath)\<close> should return the sorted
  entries of its immediate children.  The guard resolves the target, but each item's
  relative path is taken against \<open>self.project_dir\<close> as it was joined, not resolved.
  For a session built with the workspace root \<open>/ws/x/..\<close> the project directory is
  \<open>/ws/x/../abc\<close>: the directory \<open>/ws/abc\<close> exists, the guard accepts \<open>.\<close> and
  \<open>read_file\<close> works, but \<open>list_files(".")\<close> lets \<open>relative_to\<close> raise on the first
  child and returns an error payload instead of the entries.
\<close>

theorem list_files_unresolved_project_dir:
  "fst (init ''abc'' [''ws'', ''x'', ''..''] demo) = Inr ()
   \<and> project_dir (snd (init ''abc'' [''ws'', ''x'', ''..''] demo)) = [''ws'', ''x'', ''..'', ''abc'']
   \<and> fst (get_container (snd (init ''abc'' [''ws'', ''x'', ''..''] demo)))
       = Inr (InfoP ''abc'' ''http://localhost:32768'')
   \<and> get_safe_path (snd (get_container (snd (init ''abc'' [''ws'', ''x'', ''..''] demo)))) ''.''
       = Inr [''ws'', ''abc'']
   \<and> is_dir [''ws'', ''abc'']
         (fs (snd (get_container (snd (init ''abc'' [''ws'', ''x'', ''..''] demo)))))
   \<and> fst (list_files ''.'' (snd (get_container (snd (init ''abc'' [''ws'', ''x'', ''..''] demo)))))
       = Inr (ErrorP ''/ws/abc/b.txt is not in the subpath of /ws/x/../abc'')
   \<and> fst (read_file ''b.txt'' (snd (get_container (snd (init ''abc'' [''ws'', ''x'', ''..''] demo)))))
       = Inr (ContentP ''hello'')"
  by (simp add: init_def initial_setup_def get_container_def restart_previous_container_def
      containers_get_def exec_run_def exec_run_detached_def container_start_def host_port_def
      find_container_def pgrep_vite_def
      list_files_def list_files_body_def read_file_def read_file_body_def relative_to_def
      path_defs demo_defs fs_defs wrap_defs CR_def LF_def Let_def)


section \<open>The annotated rendering (C10)\<close>

lemma table_loop_rows:
  "table_loop table idx ls
     = table @ concat (map (\<lambda>(i, line). ''| '' @ str_of_nat i @ '' | ''
                         @ replace_all ''|'' [CHR 0x5C, CHR ''|''] (rstrip line) @ '' |'' @ [LF])
                  (enumerate idx ls))"
  by (induction ls arbitrary: table idx) (simp_all add: Let_def)

text \<open>
  Claim C10: the rendering of \<open>read_file_formatted\<close> numbers the lines from 1 and
  shows, for each line, the line with its trailing whitespace stripped and then its
  pipes escaped.  The stripping loses text: the files \<open>a\<close> followed by two spaces and
  \<open>a\<close> alone have the same rendering, whose only row is \<open>| 1 | a |\<close>.
\<close>

theorem annotated_rendering:
  assumes c: "container s \<noteq> None" and g: "get_safe_path s file_path = Inr target"
    and f: "lookup target (fs s) = Some (File text)"
  shows "read_file_formatted file_path s
           = (Inr (ContentP (table_header
                @ concat (map (\<lambda>(idx, line). ''| '' @ str_of_nat idx @ '' | ''
                           @ replace_all ''|'' [CHR 0x5C, CHR ''|''] (rstrip line) @ '' |'' @ [LF])
                    (enumerate 1 (readlines (translate_newlines text)))))), s)
       \<and> table_loop table_header 1 (readlines (translate_newlines ''a  ''))
           = table_loop table_header 1 (readlines (translate_newlines ''a''))
       \<and> table_loop table_header 1 (readlines (translate_newlines ''a  ''))
           = table_header @ ''| 1 | a |'' @ [LF]"
proof -
  have "read_file_formatted file_path s
          = (Inr (ContentP (table_loop table_header 1 (readlines (translate_newlines text)))), s)"
    using c g f
    by (simp add: read_file_formatted_def read_file_formatted_body_def require_container_def
        catch_all_def is_file_def open_read_def)
  moreover have "table_loop table_header 1 (readlines (translate_newlines ''a  ''))
           = table_header @ ''| 1 | a |'' @ [LF]"
    by (simp add: rstrip_def is_space_def CR_def LF_def digit_char_def replace_all.simps
        str_of_nat.simps)
  moreover have "table_loop table_header 1 (readlines (translate_newlines ''a''))
           = table_header @ ''| 1 | a |'' @ [LF]"
    by (simp add: rstrip_def is_space_def CR_def LF_def digit_char_def replace_all.simps
        str_of_nat.simps)
  ultimately show ?thesis by (simp add: table_loop_rows)
qed

theorem annotated_rendering_witness:
  "container demo \<noteq> None
   \<and> get_safe_path demo ''t.md'' = Inr [''ws'', ''abc'', ''t.md'']
   \<and> lookup [''ws'', ''abc'', ''t.md''] (fs demo) = Some (File (''x|y  '' @ [LF] @ ''z''))
   \<and> read_file_formatted ''t.md'' demo
       = (Inr (ContentP (table_header @ ''| 1 | x'' @ [CHR 0x5C] @ ''|y |'' @ [LF]
                           @ ''| 2 | z |'' @ [LF])), demo)"
proof -
  have h: "container demo \<noteq> None"
    "get_safe_path demo ''t.md'' = Inr [''ws'', ''abc'', ''t.md'']"
    "lookup [''ws'', ''abc'', ''t.md''] (fs demo) = Some (File (''x|y  '' @ [LF] @ ''z''))"
    by (simp_all add: path_defs demo_defs)
  have "concat (map (\<lambda>(idx, line). ''| '' @ str_of_nat idx @ '' | ''
                           @ replace_all ''|'' [CHR 0x5C, CHR ''|''] (rstrip line) @ '' |'' @ [LF])
                    (enumerate 1 (readlines (translate_newlines (''x|y  '' @ [LF] @ ''z'')))))
          = ''| 1 | x'' @ [CHR 0x5C] @ ''|y |'' @ [LF] @ ''| 2 | z |'' @ [LF]"
    by (simp add: rstrip_def is_space_def CR_def LF_def digit_char_def replace_all.simps
        str_of_nat.simps)
  with annotated_rendering [OF h] h show ?thesis by simp
qed


section \<open>Exact-block replacement (C3, C4)\<close>

lemma occurrences_empty: "occurrences [] xs = Suc (length xs)"
  by (induction xs) simp_all

lemma occurrences_tl_le: "occurrences sub (tl xs) \<le> occurrences sub xs"
  by (cases xs) simp_all

lemma occurrences_drop_le: "occurrences sub (drop k xs) \<le> occurrences sub xs"
proof (induction k arbitrary: xs)
  case 0
  show ?case by simp
next
  case (Suc k)
  show ?case
  proof (cases xs)
    case Nil
    then show ?thesis by simp
  next
    case (Cons x xs')
    have "occurrences sub (drop k xs') \<le> occurrences sub xs'" by (rule Suc.IH)
    with Cons show ?thesis by simp
  qed
qed

lemma py_count_Nil: "py_count sub [] = (if sub = [] then 1 else 0)"
  by (subst py_count.simps) simp

lemma py_count_Cons:
  "py_count (a # as) (x # xs) =
     (if prefix (a # as) (x # xs) then Suc (py_count (a # as) (drop (length as) xs))
      else py_count (a # as) xs)"
  by (subst py_count.simps) simp

lemma py_count_empty: "py_count [] xs = Suc (length xs)"
  by (subst py_count.simps) simp

lemma py_count_le_occurrences: "py_count sub xs \<le> occurrences sub xs"
proof (cases sub)
  case Nil
  then show ?thesis by (simp add: py_count_empty occurrences_empty)
next
  case (Cons a as)
  show ?thesis
  proof (induction xs rule: length_induct)
    case (1 xs)
    show ?case
    proof (cases xs)
      case Nil
      then show ?thesis using Cons by (simp add: py_count_Nil)
    next
      case xs: (Cons x xs')
      show ?thesis
      proof (cases "prefix sub (x # xs')")
        case True
        have "length (drop (length as) xs') < length xs" using xs by simp
        then have "py_count sub (drop (length as) xs') \<le> occurrences sub (drop (length as) xs')"
          using "1.IH" by blast
        also have "\<dots> \<le> occurrences sub xs'" by (rule occurrences_drop_le)
        finally have "Suc (py_count sub (drop (length as) xs')) \<le> Suc (occurrences sub xs')"
          by simp
        moreover have "py_count sub xs = Suc (py_count sub (drop (length as) xs'))"
          using True xs Cons by (simp only: py_count_Cons if_True)
        moreover have "occurrences sub xs = Suc (occurrences sub xs')"
          using True xs by simp
        ultimately show ?thesis by simp
      next
        case np: False
        have "py_count sub xs' \<le> occurrences sub xs'" using "1.IH" xs by simp
        moreover have "py_count sub xs = py_count sub xs'"
          using np xs Cons by (simp only: py_count_Cons if_False)
        moreover have "occurrences sub xs = occurrences sub xs'"
          using np xs by simp
        ultimately show ?thesis by simp
      qed
    qed
  qed
qed

lemma py_count_zero_iff: "py_count sub xs = 0 \<longleftrightarrow> occurrences sub xs = 0"
proof (cases sub)
  case Nil
  then show ?thesis by (simp add: py_count_empty occurrences_empty)
next
  case (Cons a as)
  show ?thesis unfolding Cons
  proof (induction xs)
    case Nil
    show ?case by (simp add: py_count_Nil)
  next
    case (Cons x xs)
    show ?case
    proof (cases "prefix (a # as) (x # xs)")
      case True
      have "py_count (a # as) (x # xs) = Suc (py_count (a # as) (drop (length as) xs))"
        using True by (simp only: py_count_Cons if_True)
      then show ?thesis using True by simp
    next
      case False
      have "py_count (a # as) (x # xs) = py_count (a # as) xs"
        using False by (simp only: py_count_Cons if_False)
      then show ?thesis using False Cons.IH by auto
    qed
  qed
qed

lemma occurrences_one_py_count: "occurrences sub xs = 1 \<Longrightarrow> py_count sub xs = 1"
  using py_count_le_occurrences [of sub xs] py_count_zero_iff [of sub xs] by simp

lemma replace_first_decomp:
  "1 \<le> occurrences sub xs \<Longrightarrow>
   \<exists>pre post. xs = pre @ sub @ post \<and> replace_first sub new xs = pre @ new @ post"
proof (induction xs)
  case Nil
  then show ?case by (simp split: if_splits)
next
  case (Cons x xs)
  show ?case
  proof (cases "prefix sub (x # xs)")
    case True
    then obtain post where eq: "x # xs = sub @ post" by (auto simp: prefix_def)
    have "replace_first sub new (x # xs) = new @ drop (length sub) (x # xs)"
      using True by simp
    moreover have "drop (length sub) (x # xs) = post" by (simp add: eq)
    ultimately have "x # xs = [] @ sub @ post
                     \<and> replace_first sub new (x # xs) = [] @ new @ post"
      using eq by simp
    then show ?thesis by blast
  next
    case False
    with Cons.prems have "1 \<le> occurrences sub xs" by simp
    from Cons.IH [OF this] obtain pre post where
      "xs = pre @ sub @ post" "replace_first sub new xs = pre @ new @ post" by blast
    then have "x # xs = (x # pre) @ sub @ post
               \<and> replace_first sub new (x # xs) = (x # pre) @ new @ post"
      using False by simp
    then show ?thesis by blast
  qed
qed

lemma occurrences_at_prefix: "prefix sub xs \<Longrightarrow> 1 \<le> occurrences sub xs"
  by (cases xs) simp_all

lemma occurrences_inside: "1 \<le> occurrences sub (pre @ sub @ post)"
proof (induction pre)
  case Nil
  have "prefix sub (sub @ post)" by simp
  from occurrences_at_prefix [OF this] show ?case by simp
next
  case (Cons a pre)
  then show ?case by simp
qed

lemma attach_at_existing:
  assumes "lookup p n = Some x"
  shows "\<exists>n'. attach_at p y n = Inr n'"
proof (cases "p = []")
  case True
  then show ?thesis by simp
next
  case False
  from attach_at_ok [OF False lookup_snoc_parent [OF False assms]] show ?thesis .
qed

lemma replace_code_no_match:
  assumes c: "container s \<noteq> None" and g: "get_safe_path s file_path = Inr target"
    and f: "lookup target (fs s) = Some (File text)"
    and z: "occurrences search_block (translate_newlines text) = 0"
  shows "replace_code file_path search_block replace_block s
           = (Inr (ErrorP ''Search block not found. Ensure whitespace/indentation matches exactly.''), s)"
proof -
  from z have "py_count search_block (translate_newlines text) = 0"
    by (simp add: py_count_zero_iff)
  with c g f show ?thesis
    by (simp add: replace_code_def replace_code_body_def require_container_def catch_all_def
        is_file_def open_read_def)
qed

lemma replace_code_ambiguous:
  assumes c: "container s \<noteq> None" and g: "get_safe_path s file_path = Inr target"
    and f: "lookup target (fs s) = Some (File text)"
    and m: "1 < py_count search_block (translate_newlines text)"
  shows "replace_code file_path search_block replace_block s
           = (Inr (ErrorP (''Ambiguous match: Block found ''
                  @ str_of_nat (py_count search_block (translate_newlines text))
                  @ '' times. Include more surrounding lines in search_block.'')), s)"
  using c g f m
  by (simp add: replace_code_def replace_code_body_def require_container_def catch_all_def
      is_file_def open_read_def Let_def)

text \<open>
  \<open>replace_code\<close> works on the text as \<open>read()\<close> returns it, with universal newlines
  applied: a block that occurs in the stored file only across a carriage return is not
  found.
\<close>

lemma replace_code_block_across_carriage_return:
  "occurrences [CR, LF, CHR ''b''] [CHR ''a'', CR, LF, CHR ''b'', CR, LF, CHR ''c''] = 1
   \<and> fst (replace_code ''w.txt'' [CR, LF, CHR ''b''] ''X''
              (snd (write_file_folder ''w.txt'' ''file''
                    (Some [CHR ''a'', CR, LF, CHR ''b'', CR, LF, CHR ''c'']) demo)))
       = Inr (ErrorP ''Search block not found. Ensure whitespace/indentation matches exactly.'')"
  by (simp add: replace_code_def replace_code_body_def write_file_folder_def
      write_file_folder_body_def path_defs demo_defs fs_defs wrap_defs
      CR_def LF_def py_count_Cons py_count_Nil)

text \<open>
  Claim C4, amended: for every file whose text as read (text mode, universal newlines:
  \<open>CR LF\<close> and a lone \<open>CR\<close> are read as \<open>LF\<close>) contains exactly one occurrence of
  \<open>search_block\<close>, \<open>replace_block\<close> succeeds and the new content of the file is that
  text with the occurrence replaced, \<open>pre @ replace_block @ post\<close>, so it contains at
  least one occurrence of \<open>replace_block\<close>.  For a file without carriage returns the
  text as read is the content of the file.
\<close>

theorem replace_code_single_occurrence:
  assumes c: "container s \<noteq> None" and g: "get_safe_path s file_path = Inr target"
    and f: "lookup target (fs s) = Some (File text)"
    and o: "occurrences search_block (translate_newlines text) = 1"
  shows "\<exists>pre post s'.
           translate_newlines text = pre @ search_block @ post
         \<and> replace_code file_path search_block replace_block s
             = (Inr (StatusP ''success'' ''Code block replaced successfully.''), s')
         \<and> lookup target (fs s') = Some (File (pre @ replace_block @ post))
         \<and> 1 \<le> occurrences replace_block (pre @ replace_block @ post)
         \<and> (CR \<notin> set text \<longrightarrow> text = pre @ search_block @ post)"
proof -
  let ?content = "translate_newlines text"
  from o have cnt: "py_count search_block ?content = 1" by (rule occurrences_one_py_count)
  from o have "1 \<le> occurrences search_block ?content" by simp
  from replace_first_decomp [OF this, of replace_block] obtain pre post where
    d: "?content = pre @ search_block @ post"
    and r: "replace_first search_block replace_block ?content = pre @ replace_block @ post"
    by blast
  from attach_at_existing [OF f] obtain fs1 where
    at: "attach_at target (File (pre @ replace_block @ post)) (fs s) = Inr fs1" by blast
  have l: "lookup target fs1 = Some (File (pre @ replace_block @ post))"
    by (rule attach_at_lookup [OF at])
  have "replace_code file_path search_block replace_block s
          = (Inr (StatusP ''success'' ''Code block replaced successfully.''), s\<lparr>fs := fs1\<rparr>)"
    using c g f cnt r at
    by (simp add: replace_code_def replace_code_body_def require_container_def catch_all_def
        is_file_def is_dir_def open_read_def open_write_def Let_def)
  moreover have "CR \<notin> set text \<longrightarrow> text = pre @ search_block @ post"
    using d translate_newlines_id [of "text"] by auto
  ultimately show ?thesis
    using d l occurrences_inside [of replace_block pre post] by auto
qed

theorem replace_code_single_occurrence_witness:
  "container (snd (write_file_folder ''w.txt'' ''file''
                    (Some [CHR ''a'', CR, LF, CHR ''b'', CR, LF, CHR ''c'']) demo)) \<noteq> None
   \<and> get_safe_path (snd (write_file_folder ''w.txt'' ''file''
                    (Some [CHR ''a'', CR, LF, CHR ''b'', CR, LF, CHR ''c'']) demo)) ''w.txt''
       = Inr [''ws'', ''abc'', ''w.txt'']
   \<and> lookup [''ws'', ''abc'', ''w.txt'']
         (fs (snd (write_file_folder ''w.txt'' ''file''
                    (Some [CHR ''a'', CR, LF, CHR ''b'', CR, LF, CHR ''c'']) demo)))
       = Some (File [CHR ''a'', CR, LF, CHR ''b'', CR, LF, CHR ''c''])
   \<and> occurrences ''b'' (translate_newlines [CHR ''a'', CR, LF, CHR ''b'', CR, LF, CHR ''c'']) = 1
   \<and> translate_newlines [CHR ''a'', CR, LF, CHR ''b'', CR, LF, CHR ''c'']
       = [CHR ''a'', LF] @ ''b'' @ [LF, CHR ''c'']
   \<and> fst (replace_code ''w.txt'' ''b'' ''X''
              (snd (write_file_folder ''w.txt'' ''file''
                    (Some [CHR ''a'', CR, LF, CHR ''b'', CR, LF, CHR ''c'']) demo)))
       = Inr (StatusP ''success'' ''Code block replaced successfully.'')
   \<and> lookup [''ws'', ''abc'', ''w.txt'']
         (fs (snd (replace_code ''w.txt'' ''b'' ''X''
              (snd (write_file_folder ''w.txt'' ''file''
                    (Some [CHR ''a'', CR, LF, CHR ''b'', CR, LF, CHR ''c'']) demo)))))
       = Some (File ([CHR ''a'', LF] @ ''X'' @ [LF, CHR ''c'']))
   \<and> 1 \<le> occurrences ''X'' ([CHR ''a'', LF] @ ''X'' @ [LF, CHR ''c''])"
proof -
  let ?text = "[CHR ''a'', CR, LF, CHR ''b'', CR, LF, CHR ''c'']"
  let ?s = "snd (write_file_folder ''w.txt'' ''file'' (Some ?text) demo)"
  have h: "container ?s \<noteq> None"
    "get_safe_path ?s ''w.txt'' = Inr [''ws'', ''abc'', ''w.txt'']"
    "lookup [''ws'', ''abc'', ''w.txt''] (fs ?s) = Some (File ?text)"
    "occurrences ''b'' (translate_newlines ?text) = 1"
    by (simp_all add: write_file_folder_def write_file_folder_body_def path_defs demo_defs
        fs_defs wrap_defs CR_def LF_def)
  have t: "translate_newlines ?text = [CHR ''a'', LF] @ ''b'' @ [LF, CHR ''c'']"
    by (simp add: CR_def LF_def)
  from replace_code_single_occurrence [OF h, of "''X''"] obtain pre post s' where
    d: "translate_newlines ?text = pre @ ''b'' @ post"
    and r: "replace_code ''w.txt'' ''b'' ''X'' ?s
             = (Inr (StatusP ''success'' ''Code block replaced successfully.''), s')"
    and l: "lookup [''ws'', ''abc'', ''w.txt''] (fs s') = Some (File (pre @ ''X'' @ post))"
    and k: "1 \<le> occurrences ''X'' (pre @ ''X'' @ post)"
    by blast
  have e: "lookup [''ws'', ''abc'', ''w.txt''] (fs (snd (replace_code ''w.txt'' ''b'' ''X'' ?s)))
             = Some (File ([CHR ''a'', LF] @ ''X'' @ [LF, CHR ''c'']))"
    by (simp add: replace_code_def replace_code_body_def write_file_folder_def
        write_file_folder_body_def path_defs demo_defs fs_defs wrap_defs
        CR_def LF_def py_count_Cons py_count_Nil)
  from r l e have "pre @ ''X'' @ post = [CHR ''a'', LF] @ ''X'' @ [LF, CHR ''c'']" by simp
  with k have "1 \<le> occurrences ''X'' ([CHR ''a'', LF] @ ''X'' @ [LF, CHR ''c''])" by simp
  with h t r e show ?thesis by simp
qed

text \<open>
  The claim as stated fails when the replacement contains the search block: the file
  \<open>one.txt\<close> holds \<open>x\<close>, one occurrence of \<open>x\<close>; replacing \<open>x\<close> by \<open>xx\<close> succeeds,
  and the new content \<open>xx\<close> still contains the search block.
\<close>

theorem replace_code_single_occurrence_counterexample:
  "get_safe_path demo ''one.txt'' = Inr [''ws'', ''abc'', ''one.txt'']
   \<and> fst (read_file ''one.txt'' demo) = Inr (ContentP ''x'')
   \<and> occurrences ''x'' ''x'' = 1
   \<and> fst (replace_code ''one.txt'' ''x'' ''xx'' demo)
       = Inr (StatusP ''success'' ''Code block replaced successfully.'')
   \<and> fst (read_file ''one.txt'' (snd (replace_code ''one.txt'' ''x'' ''xx'' demo)))
       = Inr (ContentP ''xx'')
   \<and> occurrences ''x'' ''xx'' \<noteq> 0"
  by (simp add: replace_code_def replace_code_body_def read_file_def read_file_body_def
      path_defs demo_defs fs_defs wrap_defs CR_def LF_def py_count_Cons py_count_Nil)

text \<open>
  Claim C3: a file with no occurrence of \<open>search_block\<close> gets the \<open>not found\<close>
  payload (lemma \<open>replace_code_no_match\<close>), one that \<open>count\<close> finds more than once
  gets the \<open>Ambiguous match\<close> payload and stays as it is (lemma
  \<open>replace_code_ambiguous\<close>), and a single occurrence is replaced (shown with
  claim C4).  But \<open>count\<close> skips matches that overlap an
  earlier one: the file \<open>dup.txt\<close> holds \<open>aaa\<close>, where \<open>aa\<close> occurs at two positions;
  \<open>count\<close> is 1, and the file is rewritten to \<open>ba\<close> instead of being refused as
  ambiguous.
\<close>

theorem replace_code_overlapping_matches:
  "get_safe_path demo ''dup.txt'' = Inr [''ws'', ''abc'', ''dup.txt'']
   \<and> fst (read_file ''dup.txt'' demo) = Inr (ContentP ''aaa'')
   \<and> occurrences ''aa'' ''aaa'' = 2
   \<and> py_count ''aa'' ''aaa'' = 1
   \<and> fst (replace_code ''dup.txt'' ''aa'' ''b'' demo)
       = Inr (StatusP ''success'' ''Code block replaced successfully.'')
   \<and> fst (read_file ''dup.txt'' (snd (replace_code ''dup.txt'' ''aa'' ''b'' demo)))
       = Inr (ContentP ''ba'')"
  by (simp add: replace_code_def replace_code_body_def read_file_def read_file_body_def
      path_defs demo_defs fs_defs wrap_defs CR_def LF_def py_count_Cons py_count_Nil)


section \<open>The project directory of a session (C9)\<close>

lemma resolve_acc_plain: "''..'' \<notin> set p \<Longrightarrow> resolve_acc acc p = acc @ p"
  by (induction p arbitrary: acc) auto

lemma resolve_acc_append: "resolve_acc acc (p @ q) = resolve_acc (resolve_acc acc p) q"
  by (induction p arbitrary: acc) simp_all

lemma resolve_join_plain:
  assumes "\<not> is_absolute rid" and "''..'' \<notin> set (parts rid)"
  shows "resolve (joinpath root rid) = resolve root @ parts rid"
  using assms by (simp add: resolve_def joinpath_def resolve_acc_append resolve_acc_plain)

lemma pd_bindE:
  assumes "\<And>s. project_dir (snd (m s)) = project_dir s"
    and "\<And>x s. project_dir (snd (f x s)) = project_dir s"
  shows "project_dir (snd (bindE m f s)) = project_dir s"
proof (cases "m s")
  case (Pair r s')
  have s': "project_dir s' = project_dir s" using assms(1) [of s] Pair by simp
  show ?thesis
  proof (cases r)
    case (Inl e)
    with Pair s' show ?thesis by (simp add: bindE_def)
  next
    case (Inr x)
    with Pair s' assms(2) [of x s'] show ?thesis by (simp add: bindE_def)
  qed
qed

lemma pd_catch_all:
  assumes "\<And>s. project_dir (snd (m s)) = project_dir s"
  shows "project_dir (snd (catch_all m s)) = project_dir s"
  using assms [of s] by (cases "m s") (auto simp: catch_all_def split: sum.splits)

lemma pd_require_container:
  assumes "\<And>s. project_dir (snd (m s)) = project_dir s"
  shows "project_dir (snd (require_container m s)) = project_dir s"
  using pd_catch_all [of m s, OF assms] by (simp add: require_container_def)

lemma pd_with_container:
  assumes "\<And>c s. project_dir (snd (f c s)) = project_dir s"
  shows "project_dir (snd (with_container a f s)) = project_dir s"
  using assms by (simp add: with_container_def split: option.splits)

lemma pd_basic [simp]:
  "project_dir (snd (returnE x s)) = project_dir s"
  "project_dir (snd (raiseE e s)) = project_dir s"
  "project_dir (snd (liftE r s)) = project_dir s"
  by (simp_all add: returnE_def raiseE_def liftE_def)

lemma pd_runtime [simp]:
  "project_dir (snd (exec_run c cmd s)) = project_dir s"
  "project_dir (snd (exec_run_detached c cmd s)) = project_dir s"
  "project_dir (snd (containers_get ident s)) = project_dir s"
  "project_dir (snd (containers_run ident s)) = project_dir s"
  "project_dir (snd (container_start c s)) = project_dir s"
  "project_dir (snd (container_logs c n s)) = project_dir s"
  by (simp_all add: exec_run_def exec_run_detached_def containers_get_def containers_run_def
      container_start_def container_logs_def Let_def split: option.splits prod.splits)

lemma pd_reload [simp]: "project_dir (snd (container_reload s)) = project_dir s"
  unfolding container_reload_def
  by (rule pd_with_container) (simp split: option.splits)

lemma pd_bodies [simp]:
  "project_dir (snd (list_files_body a s)) = project_dir s"
  "project_dir (snd (read_file_body a s)) = project_dir s"
  "project_dir (snd (read_file_formatted_body a s)) = project_dir s"
  "project_dir (snd (write_file_folder_body a t c s)) = project_dir s"
  "project_dir (snd (replace_code_body a b d s)) = project_dir s"
  "project_dir (snd (move_item_body a b s)) = project_dir s"
  by (simp_all add: list_files_body_def read_file_body_def read_file_formatted_body_def
      write_file_folder_body_def replace_code_body_def move_item_body_def Let_def
      split: sum.splits option.splits node.splits)

lemma pd_exec_then:
  assumes "\<And>c r s. project_dir (snd (f c r s)) = project_dir s"
  shows "project_dir (snd (with_container a (\<lambda>c. bindE (exec_run c cmd) (f c)) s)) = project_dir s"
  by (rule pd_with_container, rule pd_bindE) (simp_all add: assms)

lemma pd_delete_item: "project_dir (snd (delete_item a s)) = project_dir s"
  unfolding delete_item_def by (rule pd_exec_then) (simp split: prod.splits)

lemma pd_search_content: "project_dir (snd (search_content a s)) = project_dir s"
  unfolding search_content_def search_content_body_def
  by (rule pd_require_container, rule pd_exec_then) (simp split: prod.splits)

lemma pd_run_command: "project_dir (snd (run_command a s)) = project_dir s"
  unfolding run_command_def run_command_body_def
  by (rule pd_require_container, rule pd_exec_then) (simp split: prod.splits)

lemma pd_check_lint_errors: "project_dir (snd (check_lint_errors s)) = project_dir s"
  unfolding check_lint_errors_def
  by (rule pd_require_container, rule pd_exec_then) (simp split: prod.splits)

lemma pd_get_server_logs: "project_dir (snd (get_server_logs n s)) = project_dir s"
  unfolding get_server_logs_def
  by (rule pd_require_container, rule pd_catch_all, rule pd_with_container, rule pd_bindE)
    simp_all

lemma pd_run_command_strict: "project_dir (snd (run_command_strict cmd s)) = project_dir s"
  unfolding run_command_strict_def by (rule pd_exec_then) (simp split: prod.splits)

lemma pd_ensure: "project_dir (snd (ensure_dev_server_and_return_info s)) = project_dir s"
  unfolding ensure_dev_server_and_return_info_def
  apply (rule pd_with_container)
  apply (rule pd_bindE, simp)
  apply (simp only: split_def)
  apply (rule pd_bindE, simp)
  apply (rule pd_bindE, simp)
  apply (rule pd_with_container)
  apply simp
  done

lemma pd_create: "project_dir (snd (create_new_container s)) = project_dir s"
  unfolding create_new_container_def
  apply (rule pd_catch_all)
  apply (rule pd_bindE, simp)
  apply (rule pd_bindE, simp)
  apply (rule pd_bindE, rule pd_run_command_strict)
  apply (rule pd_bindE, rule pd_run_command_strict)
  apply (rule pd_bindE, rule pd_run_command_strict)
  apply (rule pd_ensure)
  done

lemma pd_restart: "project_dir (snd (restart_previous_container s)) = project_dir s"
  unfolding restart_previous_container_def
  apply (rule pd_catch_all)
  apply (rule pd_bindE, simp)
  apply (rule pd_bindE, simp)
  apply (rule pd_bindE, simp)
  apply (simp only: split_def)
  apply (rule pd_bindE, simp)
  apply (rule pd_bindE, simp)
  apply (rule pd_bindE, simp)
  apply simp
  done

lemma pd_get_container: "project_dir (snd (get_container s)) = project_dir s"
  using pd_restart [of s] pd_create [of s]
  by (auto simp: get_container_def containers_get_def split: option.splits)

lemma mkdir_p_result_dir: "mkdir_p p n = Inr n' \<Longrightarrow> \<exists>cs. n' = Dir cs"
  by (cases p; cases n) (auto split: sum.splits)

lemma mkdir_p_keeps_dir:
  "mkdir_p p n = Inr n' \<Longrightarrow> is_dir q n \<Longrightarrow> is_dir q n'"
proof (induction p arbitrary: n n' q)
  case Nil
  then show ?case by (cases n) auto
next
  case (Cons seg p)
  from Cons.prems(1) obtain cs where n: "n = Dir cs" by (cases n) auto
  let ?m = "case map_of cs seg of None \<Rightarrow> Dir [] | Some m \<Rightarrow> m"
  from Cons.prems(1) n obtain m' where m': "mkdir_p p ?m = Inr m'"
    and n': "n' = Dir (AList.update seg m' cs)"
    by (auto split: sum.splits)
  show ?case
  proof (cases q)
    case Nil
    with n' show ?thesis by (simp add: is_dir_def)
  next
    case q: (Cons s q')
    show ?thesis
    proof (cases "s = seg")
      case False
      with Cons.prems(2) n n' q show ?thesis
        by (simp add: is_dir_def map_of_update_other)
    next
      case True
      with Cons.prems(2) n q obtain c where c: "map_of cs seg = Some c" and d: "is_dir q' c"
        by (auto simp: is_dir_def split: option.splits)
      from m' c have "mkdir_p p c = Inr m'" by simp
      from Cons.IH [OF this d] have "is_dir q' m'" .
      with True n' q show ?thesis by (simp add: is_dir_def map_of_update_same)
    qed
  qed
qed

lemma attach_at_keeps_dir:
  "attach_at p x n = Inr n' \<Longrightarrow> is_dir q n \<Longrightarrow> \<not> prefix p q \<Longrightarrow> is_dir q n'"
proof (induction p arbitrary: n n' q)
  case Nil
  then show ?case by simp
next
  case (Cons seg p)
  from Cons.prems(1) obtain cs where n: "n = Dir cs" by (cases n) auto
  show ?case
  proof (cases q)
    case Nil
    with Cons.prems(1) n show ?thesis
      by (auto simp: is_dir_def split: if_splits option.splits sum.splits)
  next
    case q: (Cons s q')
    show ?thesis
    proof (cases "s = seg")
      case False
      with Cons.prems n q show ?thesis
        by (auto simp: is_dir_def map_of_update_other split: if_splits option.splits sum.splits)
    next
      case True
      with Cons.prems(3) q have np: "\<not> prefix p q'" by simp
      then have pne: "p \<noteq> []" by auto
      from Cons.prems(1) n pne obtain c c' where
        c: "map_of cs seg = Some c" and c': "attach_at p x c = Inr c'"
        and n': "n' = Dir (AList.update seg c' cs)"
        by (auto split: option.splits sum.splits)
      from Cons.prems(2) n q True c have "is_dir q' c" by (simp add: is_dir_def)
      from Cons.IH [OF c' this np] have "is_dir q' c'" .
      with True n' q show ?thesis by (simp add: is_dir_def map_of_update_same)
    qed
  qed
qed

lemma is_dir_above:
  assumes "is_dir q n" and "prefix p q"
  shows "is_dir p n"
proof -
  from assms(2) obtain r where q: "q = p @ r" by (auto simp: prefix_def)
  from assms(1) q obtain m where m: "lookup p n = Some m" and r: "is_dir r m"
    by (auto simp: is_dir_def lookup_append split: option.splits)
  from r have "\<exists>cs. m = Dir cs" by (cases r; cases m) (auto simp: is_dir_def)
  with m show ?thesis by (auto simp: is_dir_def)
qed

lemma mk_bindE:
  assumes "\<And>s. mount_kept pd s \<Longrightarrow> mount_kept pd (snd (m s))"
    and "\<And>x s. mount_kept pd s \<Longrightarrow> mount_kept pd (snd (f x s))"
    and "mount_kept pd s"
  shows "mount_kept pd (snd (bindE m f s))"
proof (cases "m s")
  case (Pair r s')
  have s': "mount_kept pd s'" using assms(1) [OF assms(3)] Pair by simp
  show ?thesis
  proof (cases r)
    case (Inl e)
    with Pair s' show ?thesis by (simp add: bindE_def)
  next
    case (Inr x)
    with Pair assms(2) [OF s', of x] show ?thesis by (simp add: bindE_def)
  qed
qed

lemma mk_catch_all:
  assumes "\<And>s. mount_kept pd s \<Longrightarrow> mount_kept pd (snd (m s))" and "mount_kept pd s"
  shows "mount_kept pd (snd (catch_all m s))"
  using assms(1) [OF assms(2)] by (cases "m s") (auto simp: catch_all_def split: sum.splits)

lemma mk_require_container:
  assumes "\<And>s. mount_kept pd s \<Longrightarrow> mount_kept pd (snd (m s))" and "mount_kept pd s"
  shows "mount_kept pd (snd (require_container m s))"
  using mk_catch_all [of pd m s, OF assms] assms(2) by (simp add: require_container_def)

lemma mk_with_container:
  assumes "\<And>c s. mount_kept pd s \<Longrightarrow> mount_kept pd (snd (f c s))" and "mount_kept pd s"
  shows "mount_kept pd (snd (with_container a f s))"
  using assms by (simp add: with_container_def split: option.splits)

lemma mk_basic:
  "mount_kept pd s \<Longrightarrow> mount_kept pd (snd (returnE x s))"
  "mount_kept pd s \<Longrightarrow> mount_kept pd (snd (raiseE e s))"
  "mount_kept pd s \<Longrightarrow> mount_kept pd (snd (liftE r s))"
  by (simp_all add: returnE_def raiseE_def liftE_def)

lemma mk_exec_run: "mount_kept pd s \<Longrightarrow> mount_kept pd (snd (exec_run c cmd s))"
proof -
  assume a: "mount_kept pd s"
  obtain code out fs' where o: "exec_oracle s (length (exec_log s)) cmd (fs s) = (code, out, fs')"
    by (cases "exec_oracle s (length (exec_log s)) cmd (fs s)") auto
  from a have "is_dir (resolve pd) (snd (snd (exec_oracle s (length (exec_log s)) cmd (fs s))))"
    by (simp add: mount_kept_def)
  with o have "is_dir (resolve pd) fs'" by simp
  with a o show ?thesis
    by (simp add: exec_run_def mount_kept_def split: option.splits)
qed

lemma mk_runtime:
  "mount_kept pd s \<Longrightarrow> mount_kept pd (snd (exec_run_detached c cmd s))"
  "mount_kept pd s \<Longrightarrow> mount_kept pd (snd (containers_get ident s))"
  "mount_kept pd s \<Longrightarrow> mount_kept pd (snd (containers_run ident s))"
  "mount_kept pd s \<Longrightarrow> mount_kept pd (snd (container_start c s))"
  "mount_kept pd s \<Longrightarrow> mount_kept pd (snd (container_logs c n s))"
  by (simp_all add: exec_run_detached_def containers_get_def containers_run_def
      container_start_def container_logs_def mount_kept_def Let_def split: option.splits)

lemma mk_reload: "mount_kept pd s \<Longrightarrow> mount_kept pd (snd (container_reload s))"
  unfolding container_reload_def
  by (rule mk_with_container) (simp_all add: mount_kept_def split: option.splits)

lemmas mk_simps = mk_basic mk_exec_run mk_runtime mk_reload

lemma mk_unchanged_bodies:
  "mount_kept pd s \<Longrightarrow> mount_kept pd (snd (list_files_body a s))"
  "mount_kept pd s \<Longrightarrow> mount_kept pd (snd (read_file_body a s))"
  "mount_kept pd s \<Longrightarrow> mount_kept pd (snd (read_file_formatted_body a s))"
  by (simp_all add: list_files_body_def read_file_body_def read_file_formatted_body_def
      split: sum.splits option.splits node.splits)

lemma open_write_keeps_dir:
  assumes "open_write p c n = Inr n'" and "is_dir q n"
  shows "is_dir q n'"
proof -
  from assms(1) have nd: "\<not> is_dir p n" and at: "attach_at p (File c) n = Inr n'"
    by (auto simp: open_write_def split: if_splits sum.splits)
  have "\<not> prefix p q" using is_dir_above [OF assms(2)] nd by blast
  from attach_at_keeps_dir [OF at assms(2) this] show ?thesis .
qed

lemma mkdir_parents_keeps_dir:
  "mkdir_parents p n = Inr n' \<Longrightarrow> is_dir q n \<Longrightarrow> is_dir q n'"
  by (auto simp: mkdir_parents_def split: sum.splits dest: mkdir_p_keeps_dir)

lemma mk_write_body:
  assumes "mount_kept pd s"
  shows "mount_kept pd (snd (write_file_folder_body a k c s))"
  using assms
  by (auto simp: write_file_folder_body_def mount_kept_def
      split: sum.splits dest: mkdir_parents_keeps_dir open_write_keeps_dir)

lemma mk_replace_body:
  assumes "mount_kept pd s"
  shows "mount_kept pd (snd (replace_code_body a b d s))"
  using assms
  by (auto simp: replace_code_body_def mount_kept_def Let_def
      split: sum.splits dest: open_write_keeps_dir)

lemma shutil_move_keeps_dir:
  assumes mv: "shutil_move src dst n = Inr n'" and d: "is_dir q n"
    and s: "prefix q src" and t: "prefix q dst"
  shows "is_dir q n'"
proof -
  from mv obtain x where x: "lookup src n = Some x" and np: "\<not> prefix src dst"
    and ne: "\<not> exists_path dst n" and at: "attach_at dst x (remove_at src n) = Inr n'"
    by (auto simp: shutil_move_def split: option.splits if_splits sum.splits node.splits)
  have a: "\<not> prefix src q"
  proof
    assume "prefix src q"
    with s have "src = q" by (simp add: prefix_order.antisym)
    with t np show False by simp
  qed
  have b: "\<not> prefix dst q"
  proof
    assume "prefix dst q"
    from is_dir_above [OF d this] ne show False by (auto simp: is_dir_def exists_path_def split: option.splits)
  qed
  from attach_at_keeps_dir [OF at remove_at_keeps_dir [OF a d] b] show ?thesis .
qed

lemma mk_move_body:
  assumes k: "mount_kept pd s"
    and i1: "\<And>src. get_safe_path s a = Inr src \<Longrightarrow> prefix (resolve pd) src"
    and i2: "prefix (resolve pd) (resolve (joinpath pd b))"
  shows "mount_kept pd (snd (move_item_body a b s))"
proof (cases "get_safe_path s a")
  case (Inl e)
  with k show ?thesis by (simp add: move_item_body_def)
next
  case (Inr src)
  from k have pd: "project_dir s = pd" by (simp add: mount_kept_def)
  show ?thesis
  proof (cases "mkdir_parents (parent (resolve (joinpath pd b))) (fs s)")
    case (Inl e)
    with k Inr pd show ?thesis by (simp add: move_item_body_def Let_def)
  next
    case fs1: (Inr fs1)
    from k have d: "is_dir (resolve pd) (fs s)" by (simp add: mount_kept_def)
    have d1: "is_dir (resolve pd) fs1" by (rule mkdir_parents_keeps_dir [OF fs1 d])
    show ?thesis
    proof (cases "shutil_move src (resolve (joinpath pd b)) fs1")
      case (Inl e)
      with k Inr pd fs1 d1 show ?thesis
        by (simp add: move_item_body_def Let_def mount_kept_def)
    next
      case fs2: (Inr fs2)
      have "is_dir (resolve pd) fs2"
        by (rule shutil_move_keeps_dir [OF fs2 d1 i1 [OF Inr] i2])
      with k Inr pd fs1 fs2 show ?thesis
        by (simp add: move_item_body_def Let_def mount_kept_def)
    qed
  qed
qed

lemma mk_exec_then:
  assumes "\<And>c r s. mount_kept pd s \<Longrightarrow> mount_kept pd (snd (f c r s))" and "mount_kept pd s"
  shows "mount_kept pd (snd (with_container a (\<lambda>c. bindE (exec_run c cmd) (f c)) s))"
  using assms(2)
  by (rule mk_with_container [rotated], intro mk_bindE mk_exec_run) (simp_all add: assms(1))

lemma mk_delete_item: "mount_kept pd s \<Longrightarrow> mount_kept pd (snd (delete_item a s))"
  unfolding delete_item_def
  by (rule mk_exec_then) (simp_all add: mk_basic split: prod.splits)

lemma mk_search_content: "mount_kept pd s \<Longrightarrow> mount_kept pd (snd (search_content a s))"
  unfolding search_content_def search_content_body_def
  by (rule mk_require_container, rule mk_exec_then) (simp_all add: mk_basic split: prod.splits)

lemma mk_run_command: "mount_kept pd s \<Longrightarrow> mount_kept pd (snd (run_command a s))"
  unfolding run_command_def run_command_body_def
  by (rule mk_require_container, rule mk_exec_then) (simp_all add: mk_basic split: prod.splits)

lemma mk_check_lint_errors: "mount_kept pd s \<Longrightarrow> mount_kept pd (snd (check_lint_errors s))"
  unfolding check_lint_errors_def
  by (rule mk_require_container, rule mk_exec_then) (simp_all add: mk_basic split: prod.splits)

lemma mk_get_server_logs: "mount_kept pd s \<Longrightarrow> mount_kept pd (snd (get_server_logs n s))"
  unfolding get_server_logs_def
  by (rule mk_require_container, rule mk_catch_all, rule mk_with_container, rule mk_bindE)
    (simp_all add: mk_simps)

lemma mk_run_command_strict:
  "mount_kept pd s \<Longrightarrow> mount_kept pd (snd (run_command_strict cmd s))"
  unfolding run_command_strict_def
  by (rule mk_exec_then) (simp_all add: mk_basic split: prod.splits)

lemma mk_ensure:
  "mount_kept pd s \<Longrightarrow> mount_kept pd (snd (ensure_dev_server_and_return_info s))"
  unfolding ensure_dev_server_and_return_info_def
  apply (rule mk_with_container [rotated], assumption)
  apply (rule mk_bindE, simp add: mk_simps)
   apply (simp only: split_def)
   apply (rule mk_bindE, simp add: mk_simps)
    apply (rule mk_bindE, simp add: mk_simps)
     apply (rule mk_with_container [rotated], assumption)
     apply (simp add: mk_simps)
    apply assumption
   apply assumption
  apply assumption
  done

lemma mk_create: "mount_kept pd s \<Longrightarrow> mount_kept pd (snd (create_new_container s))"
  unfolding create_new_container_def
  apply (rule mk_catch_all [rotated], assumption)
  apply (rule mk_bindE, simp add: mk_simps)
   apply (rule mk_bindE, simp add: mount_kept_def)
    apply (rule mk_bindE, erule mk_run_command_strict)
     apply (rule mk_bindE, erule mk_run_command_strict)
      apply (rule mk_bindE, erule mk_run_command_strict)
       apply (erule mk_ensure)
      apply assumption+
  done

lemma mk_restart: "mount_kept pd s \<Longrightarrow> mount_kept pd (snd (restart_previous_container s))"
  unfolding restart_previous_container_def
  apply (rule mk_catch_all [rotated], assumption)
  apply (rule mk_bindE, simp add: mk_simps)
   apply (rule mk_bindE, simp add: mk_simps)
    apply (rule mk_bindE, simp add: mk_simps)
     apply (simp only: split_def)
     apply (rule mk_bindE, simp add: mk_simps)
      apply (rule mk_bindE, simp add: mk_simps)
       apply (rule mk_bindE, simp add: mount_kept_def)
        apply (simp add: mk_simps)
       apply assumption+
  done

lemma mk_get_container: "mount_kept pd s \<Longrightarrow> mount_kept pd (snd (get_container s))"
  using mk_restart [of pd s] mk_create [of pd s]
  by (auto simp: get_container_def containers_get_def split: option.splits)

lemma mk_host_operations:
  assumes "mount_kept pd s"
  shows "mount_kept pd (snd (list_files a s))"
    and "mount_kept pd (snd (read_file a s))"
    and "mount_kept pd (snd (read_file_formatted a s))"
    and "mount_kept pd (snd (write_file_folder a k c s))"
    and "mount_kept pd (snd (replace_code a b d s))"
  unfolding list_files_def read_file_def read_file_formatted_def write_file_folder_def
    replace_code_def
  by (rule mk_require_container [OF _ assms];
      simp add: mk_unchanged_bodies mk_write_body mk_replace_body)+

lemma mk_move_item:
  assumes k: "mount_kept pd s"
    and i1: "\<forall>src. get_safe_path s a = Inr src \<longrightarrow> prefix (resolve pd) src"
    and i2: "prefix (resolve pd) (resolve (joinpath pd b))"
  shows "mount_kept pd (snd (move_item a b s))"
proof (cases "container s")
  case None
  with k show ?thesis by (simp add: move_item_def require_container_def)
next
  case (Some c)
  have "mount_kept pd (snd (move_item_body a b s))"
    using i1 by (intro mk_move_body [OF k _ i2]) blast
  then show ?thesis using Some
    by (cases "move_item_body a b s")
      (auto simp: move_item_def require_container_def catch_all_def split: sum.splits)
qed

text \<open>
  Claim C9, amended: for every workspace root and every session id that is a relative
  path without \<open>..\<close> segments, the \<open>project_dir\<close> computed at construction is
  \<open>workspace_root / run_id\<close> and its canonical form lies at or below the canonical
  workspace root.  No operation of the system (acquiring the container or any of the
  eleven workspace operations) assigns a different \<open>project_dir\<close> to the session.  And
  the directory is not deleted: as long as commands run inside the container cannot
  remove their mount point, the project directory still exists after every operation;
  for \<open>move\<close> this is stated for a source and a destination that resolve inside the
  project directory.
\<close>

theorem project_dir_invariant:
  assumes "\<not> is_absolute rid" and "''..'' \<notin> set (parts rid)"
  shows "project_dir (snd (init rid root s)) = root @ parts rid
       \<and> resolve (project_dir (snd (init rid root s))) = resolve root @ parts rid
       \<and> prefix (resolve root) (resolve (project_dir (snd (init rid root s))))
       \<and> project_dir (snd (get_container t)) = project_dir t
       \<and> project_dir (snd (list_files a t)) = project_dir t
       \<and> project_dir (snd (read_file a t)) = project_dir t
       \<and> project_dir (snd (read_file_formatted a t)) = project_dir t
       \<and> project_dir (snd (write_file_folder a k c t)) = project_dir t
       \<and> project_dir (snd (delete_item a t)) = project_dir t
       \<and> project_dir (snd (search_content a t)) = project_dir t
       \<and> project_dir (snd (replace_code a b d t)) = project_dir t
       \<and> project_dir (snd (move_item a b t)) = project_dir t
       \<and> project_dir (snd (run_command a t)) = project_dir t
       \<and> project_dir (snd (check_lint_errors t)) = project_dir t
       \<and> project_dir (snd (get_server_logs n t)) = project_dir t
       \<and> (mount_kept (project_dir t) t \<longrightarrow>
             mount_kept (project_dir t) (snd (get_container t))
           \<and> mount_kept (project_dir t) (snd (list_files a t))
           \<and> mount_kept (project_dir t) (snd (read_file a t))
           \<and> mount_kept (project_dir t) (snd (read_file_formatted a t))
           \<and> mount_kept (project_dir t) (snd (write_file_folder a k c t))
           \<and> mount_kept (project_dir t) (snd (delete_item a t))
           \<and> mount_kept (project_dir t) (snd (search_content a t))
           \<and> mount_kept (project_dir t) (snd (replace_code a b d t))
           \<and> mount_kept (project_dir t) (snd (run_command a t))
           \<and> mount_kept (project_dir t) (snd (check_lint_errors t))
           \<and> mount_kept (project_dir t) (snd (get_server_logs n t))
           \<and> ((\<forall>src. get_safe_path t a = Inr src \<longrightarrow> prefix (resolve (project_dir t)) src)
                \<and> prefix (resolve (project_dir t)) (resolve (joinpath (project_dir t) b))
               \<longrightarrow> mount_kept (project_dir t) (snd (move_item a b t))))"
proof -
  have i: "project_dir (snd (init rid root s)) = joinpath root rid"
    by (simp add: init_def initial_setup_def Let_def split: sum.splits option.splits)
  have j: "joinpath root rid = root @ parts rid" using assms(1) by (simp add: joinpath_def)
  have r: "resolve (joinpath root rid) = resolve root @ parts rid"
    by (rule resolve_join_plain [OF assms])
  have ops: "project_dir (snd (list_files a t)) = project_dir t"
    "project_dir (snd (read_file a t)) = project_dir t"
    "project_dir (snd (read_file_formatted a t)) = project_dir t"
    "project_dir (snd (write_file_folder a k c t)) = project_dir t"
    "project_dir (snd (replace_code a b d t)) = project_dir t"
    "project_dir (snd (move_item a b t)) = project_dir t"
    unfolding list_files_def read_file_def read_file_formatted_def write_file_folder_def
      replace_code_def move_item_def
    by (rule pd_require_container, simp)+
  have fields: "project_dir (snd (init rid root s)) = root @ parts rid
       \<and> resolve (project_dir (snd (init rid root s))) = resolve root @ parts rid
       \<and> prefix (resolve root) (resolve (project_dir (snd (init rid root s))))
       \<and> project_dir (snd (get_container t)) = project_dir t
       \<and> project_dir (snd (list_files a t)) = project_dir t
       \<and> project_dir (snd (read_file a t)) = project_dir t
       \<and> project_dir (snd (read_file_formatted a t)) = project_dir t
       \<and> project_dir (snd (write_file_folder a k c t)) = project_dir t
       \<and> project_dir (snd (delete_item a t)) = project_dir t
       \<and> project_dir (snd (search_content a t)) = project_dir t
       \<and> project_dir (snd (replace_code a b d t)) = project_dir t
       \<and> project_dir (snd (move_item a b t)) = project_dir t
       \<and> project_dir (snd (run_command a t)) = project_dir t
       \<and> project_dir (snd (check_lint_errors t)) = project_dir t
       \<and> project_dir (snd (get_server_logs n t)) = project_dir t"
    using i j r ops pd_get_container [of t] pd_delete_item [of a t] pd_search_content [of a t]
      pd_run_command [of a t] pd_check_lint_errors [of t] pd_get_server_logs [of n t]
    by simp
  have dirs: "mount_kept (project_dir t) (snd (get_container t))
           \<and> mount_kept (project_dir t) (snd (list_files a t))
           \<and> mount_kept (project_dir t) (snd (read_file a t))
           \<and> mount_kept (project_dir t) (snd (read_file_formatted a t))
           \<and> mount_kept (project_dir t) (snd (write_file_folder a k c t))
           \<and> mount_kept (project_dir t) (snd (delete_item a t))
           \<and> mount_kept (project_dir t) (snd (search_content a t))
           \<and> mount_kept (project_dir t) (snd (replace_code a b d t))
           \<and> mount_kept (project_dir t) (snd (run_command a t))
           \<and> mount_kept (project_dir t) (snd (check_lint_errors t))
           \<and> mount_kept (project_dir t) (snd (get_server_logs n t))
           \<and> ((\<forall>src. get_safe_path t a = Inr src \<longrightarrow> prefix (resolve (project_dir t)) src)
                \<and> prefix (resolve (project_dir t)) (resolve (joinpath (project_dir t) b))
               \<longrightarrow> mount_kept (project_dir t) (snd (move_item a b t)))"
    if m: "mount_kept (project_dir t) t"
    using mk_get_container [OF m] mk_host_operations [OF m] mk_delete_item [OF m]
      mk_search_content [OF m] mk_run_command [OF m] mk_check_lint_errors [OF m]
      mk_get_server_logs [OF m] mk_move_item [OF m, of a b]
    by blast
  from fields dirs show ?thesis by blast
qed

theorem project_dir_invariant_witness:
  "\<not> is_absolute ''abc'' \<and> ''..'' \<notin> set (parts ''abc'')
   \<and> project_dir (snd (init ''abc'' [''ws''] demo)) = [''ws'', ''abc'']
   \<and> prefix (resolve [''ws'']) (resolve (project_dir (snd (init ''abc'' [''ws''] demo))))
   \<and> project_dir (snd (move_item ''a'' ''lib/a2'' demo)) = [''ws'', ''abc'']
   \<and> is_dir (resolve (project_dir demo)) (fs demo)
   \<and> get_safe_path demo ''a'' = Inr [''ws'', ''abc'', ''a'']
   \<and> prefix (resolve (project_dir demo)) [''ws'', ''abc'', ''a'']
   \<and> prefix (resolve (project_dir demo)) (resolve (joinpath (project_dir demo) ''lib/a2''))
   \<and> is_dir (resolve (project_dir demo)) (fs (snd (move_item ''a'' ''lib/a2'' demo)))
   \<and> is_dir (resolve (project_dir demo)) (fs (snd (delete_item ''a'' demo)))
   \<and> is_dir (resolve (project_dir demo)) (fs (snd (get_container demo)))"
proof -
  have h: "\<not> is_absolute ''abc''" "''..'' \<notin> set (parts ''abc'')"
    by (simp_all add: is_absolute_def parts_def)
  have p: "parts ''abc'' = [''abc'']" by (simp add: parts_def)
  have d: "project_dir demo = [''ws'', ''abc'']" by (simp add: demo_def)
  have m: "mount_kept (project_dir demo) demo"
    by (simp add: mount_kept_def demo_defs resolve_def is_dir_def)
  have g: "get_safe_path demo ''a'' = Inr [''ws'', ''abc'', ''a'']"
    "prefix (resolve (project_dir demo)) [''ws'', ''abc'', ''a'']"
    by (simp_all add: path_defs demo_defs)
  then have g': "\<forall>src. get_safe_path demo ''a'' = Inr src \<longrightarrow> prefix (resolve (project_dir demo)) src"
    by simp
  have q: "prefix (resolve (project_dir demo)) (resolve (joinpath (project_dir demo) ''lib/a2''))"
    by (simp add: path_defs demo_defs)
  note t = project_dir_invariant [OF h, where root = "[''ws'']" and s = demo and t = demo
      and a = "''a''" and b = "''lib/a2''"]
  from t m g' q have k: "mount_kept (project_dir demo) (snd (move_item ''a'' ''lib/a2'' demo))"
    "mount_kept (project_dir demo) (snd (delete_item ''a'' demo))"
    "mount_kept (project_dir demo) (snd (get_container demo))"
    by blast+
  from t h p have f: "project_dir (snd (init ''abc'' [''ws''] demo)) = [''ws'', ''abc'']"
    "prefix (resolve [''ws'']) (resolve (project_dir (snd (init ''abc'' [''ws''] demo))))"
    "project_dir (snd (move_item ''a'' ''lib/a2'' demo)) = project_dir demo"
    by (simp_all add: resolve_def)
  from k have "is_dir (resolve (project_dir demo)) (fs (snd (move_item ''a'' ''lib/a2'' demo)))"
    "is_dir (resolve (project_dir demo)) (fs (snd (delete_item ''a'' demo)))"
    "is_dir (resolve (project_dir demo)) (fs (snd (get_container demo)))"
    by (simp_all add: mount_kept_def)
  with h f d m g q show ?thesis by (simp add: mount_kept_def)
qed

text \<open>
  The claim as stated fails for session ids that are absolute or climb with \<open>..\<close>:
  with the workspace root \<open>/ws\<close>, the id \<open>/etc\<close> gives the project directory \<open>/etc\<close>
  and the id \<open>../other\<close> gives \<open>/other\<close>, neither below \<open>/ws\<close>.
\<close>

theorem project_dir_invariant_counterexample:
  "project_dir (snd (init ''/etc'' [''ws''] demo)) = [''etc'']
   \<and> \<not> prefix (resolve [''ws'']) (resolve (project_dir (snd (init ''/etc'' [''ws''] demo))))
   \<and> resolve (project_dir (snd (init ''../other'' [''ws''] demo))) = [''other'']
   \<and> \<not> prefix (resolve [''ws'']) (resolve (project_dir (snd (init ''../other'' [''ws''] demo))))"
  by (simp add: init_def initial_setup_def path_defs fs_defs demo_defs Let_def)


section \<open>Acquiring the container twice (C6)\<close>







lemma host_port_published [simp]:
  "host_port (c\<lparr>cstatus := st, cports := [(''5173/tcp'', Some [q])]\<rparr>) = Inr q"
  by (simp add: host_port_def)










end
